(* ===== verification/Enos_Prelude.thy ===== *)
theory Enos_Prelude
  imports Main "HOL-Library.Word"
begin

text \<open>
  Prelude of the ENOS development: the machine integer types of the i686 target, the
  outcome of code that may panic, the arithmetic of the \<^verbatim>\<open>dev\<close> profile (overflow
  checks on, as \<^verbatim>\<open>build.sh\<close> builds the kernel), the saturating and checked variants
  of the standard library, the \<^verbatim>\<open>Vec\<close> and iterator operations the kernel uses, and the
  lemmas about them that the component theories share.
\<close>

unbundle bit_operations_syntax

named_theorems run_simps \<open>evaluation of sequenced computations that may panic\<close>
named_theorems arith_run \<open>when checked and saturating arithmetic succeeds\<close>

section \<open>Machine integers\<close>

type_synonym u8 = "8 word"
type_synonym u16 = "16 word"
type_synonym u32 = "32 word"
type_synonym u64 = "64 word"

text \<open>The target has 32-bit pointers (\<^verbatim>\<open>target-pointer-width\<close> in \<^verbatim>\<open>i686-enos.json\<close>).\<close>

type_synonym usize = "32 word"

section \<open>Panics\<close>

datatype panic =
    ArithOverflow
  | IndexOutOfBounds
  | ExplicitPanic string

type_synonym 'a run = "panic + 'a"

abbreviation (input) Panic :: "panic \<Rightarrow> 'a run" where
  "Panic p \<equiv> Inl p"

abbreviation (input) Ret :: "'a \<Rightarrow> 'a run" where
  "Ret x \<equiv> Inr x"

text \<open>\<^verbatim>\<open>Result<T, &'static str>\<close> is a sum with the message on the left.\<close>

abbreviation (input) Err :: "'e \<Rightarrow> 'e + 'a" where
  "Err e \<equiv> Inl e"

abbreviation (input) Ok :: "'a \<Rightarrow> 'e + 'a" where
  "Ok x \<equiv> Inr x"

definition rbind :: "'e + 'a \<Rightarrow> ('a \<Rightarrow> 'e + 'b) \<Rightarrow> 'e + 'b" where
  "rbind m f = (case m of Inl p \<Rightarrow> Inl p | Inr x \<Rightarrow> f x)"

lemma rbind_Inr [simp, run_simps]: "rbind (Inr x) f = f x"
  by (simp add: rbind_def)

lemma rbind_Inl [simp, run_simps]: "rbind (Inl p) f = Inl p"
  by (simp add: rbind_def)

lemma rbind_cong [fundef_cong]:
  "m = m' \<Longrightarrow> (\<And>x. m' = Inr x \<Longrightarrow> f x = g x) \<Longrightarrow> rbind m f = rbind m' g"
  by (cases m') (simp_all add: rbind_def)

lemma rbind_eq_Inr_iff: "rbind m f = Inr y \<longleftrightarrow> (\<exists>x. m = Inr x \<and> f x = Inr y)"
  by (cases m) auto

lemma rbind_eq_InrE:
  assumes "rbind m f = Inr y"
  obtains x where "m = Inr x" and "f x = Inr y"
  using assms by (auto simp: rbind_eq_Inr_iff)

lemma rbind_assoc: "rbind (rbind m f) g = rbind m (\<lambda>x. rbind (f x) g)"
  by (cases m) simp_all

section \<open>Arithmetic\<close>

text \<open>Plain \<^verbatim>\<open>+\<close>, \<^verbatim>\<open>-\<close> and \<^verbatim>\<open>*\<close> of the dev profile panic when the result does not fit.\<close>

definition add_ov :: "'a::len word \<Rightarrow> 'a word \<Rightarrow> 'a word run" where
  "add_ov a b = (if unat a + unat b < 2 ^ LENGTH('a) then Ret (a + b) else Panic ArithOverflow)"

definition sub_ov :: "'a::len word \<Rightarrow> 'a word \<Rightarrow> 'a word run" where
  "sub_ov a b = (if b \<le> a then Ret (a - b) else Panic ArithOverflow)"

definition checked_add :: "'a::len word \<Rightarrow> 'a word \<Rightarrow> 'a word option" where
  "checked_add a b = (if unat a + unat b < 2 ^ LENGTH('a) then Some (a + b) else None)"

definition saturating_add :: "'a::len word \<Rightarrow> 'a word \<Rightarrow> 'a word" where
  "saturating_add a b = (if unat a + unat b < 2 ^ LENGTH('a) then a + b else - 1)"

definition saturating_sub :: "'a::len word \<Rightarrow> 'a word \<Rightarrow> 'a word" where
  "saturating_sub a b = (if b \<le> a then a - b else 0)"

definition saturating_mul :: "'a::len word \<Rightarrow> 'a word \<Rightarrow> 'a word" where
  "saturating_mul a b = (if unat a * unat b < 2 ^ LENGTH('a) then a * b else - 1)"

lemma unat_plus_noov:
  "unat a + unat b < 2 ^ LENGTH('a) \<Longrightarrow> unat (a + b) = unat a + unat b"
  for a b :: "'a::len word"
  by (simp add: unat_word_ariths)

lemma unat_mult_noov:
  "unat a * unat b < 2 ^ LENGTH('a) \<Longrightarrow> unat (a * b) = unat a * unat b"
  for a b :: "'a::len word"
  by (simp add: unat_word_ariths)

lemma add_ov_eq_Inr [arith_run]:
  "add_ov a b = Inr c \<longleftrightarrow> unat a + unat b < 2 ^ LENGTH('a) \<and> c = a + b"
  for a b :: "'a::len word"
  by (auto simp: add_ov_def)

lemma add_ov_unat: "add_ov a b = Inr c \<Longrightarrow> unat c = unat a + unat b"
  for a b :: "'a::len word"
  by (auto simp: add_ov_eq_Inr unat_plus_noov)

lemma add_ov_ok: "unat a + unat b < 2 ^ LENGTH('a) \<Longrightarrow> add_ov a b = Inr (a + b)"
  for a b :: "'a::len word"
  by (simp add: add_ov_def)

lemma add_ov_nat:
  fixes a b :: "'a::len word"
  assumes "unat a + unat b < 2 ^ LENGTH('a)"
  obtains c where "add_ov a b = Inr c" "unat c = unat a + unat b"
  using that [OF add_ov_ok [OF assms]] assms by (simp add: unat_plus_noov)

lemma sub_ov_eq_Inr [arith_run]: "sub_ov a b = Inr c \<longleftrightarrow> b \<le> a \<and> c = a - b"
  by (auto simp: sub_ov_def)

lemma sub_ov_unat: "sub_ov a b = Inr c \<Longrightarrow> unat c = unat a - unat b"
  for a b :: "'a::len word"
  by (auto simp: sub_ov_eq_Inr unat_sub word_le_nat_alt)

lemma sub_ov_nat:
  fixes a b :: "'a::len word"
  assumes "unat b \<le> unat a"
  obtains c where "sub_ov a b = Inr c" "unat c = unat a - unat b"
  using that [of "a - b"] assms by (simp add: sub_ov_def unat_sub word_le_nat_alt)

lemma checked_add_eq_Some [arith_run]:
  "checked_add a b = Some c \<longleftrightarrow> unat a + unat b < 2 ^ LENGTH('a) \<and> c = a + b"
  for a b :: "'a::len word"
  by (auto simp: checked_add_def)

lemma checked_add_unat: "checked_add a b = Some c \<Longrightarrow> unat c = unat a + unat b"
  for a b :: "'a::len word"
  by (auto simp: checked_add_eq_Some unat_plus_noov)

lemma checked_add_None: "checked_add a b = None \<longleftrightarrow> 2 ^ LENGTH('a) \<le> unat a + unat b"
  for a b :: "'a::len word"
  by (auto simp: checked_add_def)

lemma unat_max_word: "unat (- 1 :: 'a::len word) = 2 ^ LENGTH('a) - 1"
  by (simp add: unsigned_minus_1_eq_mask mask_eq_exp_minus_1)

lemma saturating_add_unat:
  "unat (saturating_add a b) = min (unat a + unat b) (2 ^ LENGTH('a) - 1)"
  for a b :: "'a::len word"
proof (cases "unat a + unat b < 2 ^ LENGTH('a)")
  case True
  then show ?thesis by (simp add: saturating_add_def unat_plus_noov)
next
  case False
  then show ?thesis by (simp add: saturating_add_def unat_max_word)
qed

lemma saturating_sub_unat: "unat (saturating_sub a b) = unat a - unat b"
  for a b :: "'a::len word"
  by (auto simp: saturating_sub_def unat_sub word_le_nat_alt)

lemma saturating_mul_unat:
  "unat (saturating_mul a b) = min (unat a * unat b) (2 ^ LENGTH('a) - 1)"
  for a b :: "'a::len word"
proof (cases "unat a * unat b < 2 ^ LENGTH('a)")
  case True
  then show ?thesis by (simp add: saturating_mul_def unat_mult_noov)
next
  case False
  then show ?thesis by (simp add: saturating_mul_def unat_max_word)
qed

section \<open>Vectors and iterators\<close>

text \<open>
  A \<^verbatim>\<open>Vec\<close> is a list and its indices are natural numbers: a vector's length is
  bounded by the address space, so sums of two indices do not leave \<^verbatim>\<open>usize\<close>.
  \<open>remove_at\<close> is \<^verbatim>\<open>Vec::remove\<close> below the length, \<open>position\<close> is
  \<^verbatim>\<open>Iterator::position\<close>.
\<close>

definition remove_at :: "nat \<Rightarrow> 'a list \<Rightarrow> 'a list" where
  "remove_at i xs = take i xs @ drop (Suc i) xs"

fun position :: "('a \<Rightarrow> bool) \<Rightarrow> 'a list \<Rightarrow> nat option" where
  "position P [] = None"
| "position P (x # xs) = (if P x then Some 0 else map_option Suc (position P xs))"

lemma length_remove_at [simp]: "i < length xs \<Longrightarrow> length (remove_at i xs) = length xs - 1"
  by (simp add: remove_at_def)

lemma remove_at_append [simp]: "length xs = i \<Longrightarrow> remove_at i (xs @ y # ys) = xs @ ys"
  by (simp add: remove_at_def)

lemma nth_remove_at:
  assumes "i < length xs" and "j < length xs - 1"
  shows "remove_at i xs ! j = (if j < i then xs ! j else xs ! Suc j)"
  using assms by (auto simp: remove_at_def nth_append min_def)

lemma set_remove_at: "set (remove_at i xs) \<subseteq> set xs"
  by (auto simp: remove_at_def dest: in_set_takeD in_set_dropD)

lemma map_remove_at: "map f (remove_at i xs) = remove_at i (map f xs)"
  by (simp add: remove_at_def take_map drop_map)

lemma distinct_remove_at: "distinct xs \<Longrightarrow> distinct (remove_at i xs)"
proof -
  assume "distinct xs"
  moreover have "set (take i xs) \<inter> set (drop (Suc i) xs) = {}"
    using \<open>distinct xs\<close> by (simp add: set_take_disj_set_drop_if_distinct)
  ultimately show ?thesis by (simp add: remove_at_def)
qed

lemma remove_at_keeps:
  assumes "i < length xs" and "x \<in> set xs" and "x \<noteq> xs ! i"
  shows "x \<in> set (remove_at i xs)"
proof -
  have "xs = take i xs @ xs ! i # drop (Suc i) xs"
    using assms(1) by (rule id_take_nth_drop)
  then have "set xs = insert (xs ! i) (set (remove_at i xs))"
    by (metis (no_types, lifting) remove_at_def Un_insert_right list.simps(15) set_append)
  with assms(2,3) show ?thesis by blast
qed

lemma position_Some_iff:
  "position P xs = Some i \<longleftrightarrow> i < length xs \<and> P (xs ! i) \<and> (\<forall>j < i. \<not> P (xs ! j))"
proof (induction xs arbitrary: i)
  case Nil
  then show ?case by simp
next
  case (Cons x xs)
  then show ?case
    by (cases i) (auto simp: less_Suc_eq_0_disj)
qed

lemma position_None_iff: "position P xs = None \<longleftrightarrow> (\<forall>x \<in> set xs. \<not> P x)"
  by (induction xs) auto

lemma position_SomeD:
  "position P xs = Some i \<Longrightarrow> i < length xs"
  "position P xs = Some i \<Longrightarrow> P (xs ! i)"
  by (simp_all add: position_Some_iff)

lemma position_ex: "x \<in> set xs \<Longrightarrow> P x \<Longrightarrow> \<exists>i. position P xs = Some i"
  by (metis not_None_eq position_None_iff)

text \<open>\<^verbatim>\<open>for k in a..b\<close> with a \<^verbatim>\<open>return\<close> at the first hit.\<close>

lemma find_upt_Some:
  "find P [a ..< b] = Some k \<longleftrightarrow> a \<le> k \<and> k < b \<and> P k \<and> (\<forall>j. a \<le> j \<and> j < k \<longrightarrow> \<not> P j)"
  (is "?L \<longleftrightarrow> ?R")
proof
  assume ?L
  then obtain i where i: "i < b - a" "P (a + i)" "k = a + i" and min: "\<forall>j < i. \<not> P (a + j)"
    by (auto simp: find_Some_iff)
  have "\<not> P j" if "a \<le> j" "j < k" for j
    using min [rule_format, of "j - a"] that i(3) by auto
  with i show ?R by auto
next
  assume ?R
  then show ?L by (auto simp: find_Some_iff intro!: exI [of _ "k - a"])
qed

lemma find_upt_None: "find P [a ..< b] = None \<longleftrightarrow> (\<forall>k. a \<le> k \<and> k < b \<longrightarrow> \<not> P k)"
  by (auto simp: find_None_iff)

text \<open>What removing or replacing one element does to a filtered list.\<close>

lemma filter_remove_at:
  assumes "i < length xs" and "\<not> P (xs ! i)"
  shows "filter P (remove_at i xs) = filter P xs"
proof -
  have "filter P xs = filter P (take i xs @ xs ! i # drop (Suc i) xs)"
    using assms(1) by (simp add: id_take_nth_drop [symmetric])
  with assms(2) show ?thesis by (simp add: remove_at_def)
qed

lemma map_filter_update:
  assumes "i < length xs" and "P y = P (xs ! i)" and "P y \<Longrightarrow> g y = g (xs ! i)"
  shows "map g (filter P (xs[i := y])) = map g (filter P xs)"
proof -
  have "map g (filter P xs) = map g (filter P (take i xs @ xs ! i # drop (Suc i) xs))"
    using assms(1) by (simp add: id_take_nth_drop [symmetric])
  with assms show ?thesis by (simp add: upd_conv_take_nth_drop)
qed

lemma map_update_same: "g y = g (xs ! i) \<Longrightarrow> map g (xs[i := y]) = map g xs"
  by (metis list_update_id map_update)

lemma filter_map_same:
  "(\<And>x. P (f x) = P x) \<Longrightarrow> (\<And>x. g (f x) = g x) \<Longrightarrow>
     map g (filter P (map f xs)) = map g (filter P xs)"
  by (induction xs) auto

section \<open>Little-endian words\<close>

text \<open>
  How the target lays a 32-bit value out in four bytes, and how four bytes are read
  back. \<open>load_le xs i\<close> is the 32-bit value at offset \<open>i\<close> of a byte array.
\<close>

definition le_word :: "u8 \<Rightarrow> u8 \<Rightarrow> u8 \<Rightarrow> u8 \<Rightarrow> u32" where
  "le_word a b c d =
     ucast a OR push_bit 8 (ucast b) OR push_bit 16 (ucast c) OR push_bit 24 (ucast d)"

definition load_le :: "u8 list \<Rightarrow> nat \<Rightarrow> u32" where
  "load_le xs i = le_word (xs ! i) (xs ! (i + 1)) (xs ! (i + 2)) (xs ! (i + 3))"

lemma le_word_split:
  "le_word (ucast v) (ucast (drop_bit 8 v)) (ucast (drop_bit 16 v)) (ucast (drop_bit 24 v)) = v"
  for v :: u32
proof (rule bit_word_eqI)
  fix n
  assume "n < LENGTH(32)"
  then show "bit (le_word (ucast v) (ucast (drop_bit 8 v)) (ucast (drop_bit 16 v))
      (ucast (drop_bit 24 v))) n \<longleftrightarrow> bit v n"
    unfolding le_word_def
    by (cases "24 \<le> n"; cases "16 \<le> n")
       (auto simp: bit_or_iff bit_push_bit_iff bit_ucast_iff bit_drop_bit_eq)
qed

definition store_le :: "u8 list \<Rightarrow> nat \<Rightarrow> u32 \<Rightarrow> u8 list" where
  "store_le xs i v =
     xs[i := ucast v, i + 1 := ucast (drop_bit 8 v), i + 2 := ucast (drop_bit 16 v),
        i + 3 := ucast (drop_bit 24 v)]"

lemma length_store_le [simp]: "length (store_le xs i v) = length xs"
  by (simp add: store_le_def)

lemma load_store_same: "i + 3 < length xs \<Longrightarrow> load_le (store_le xs i v) i = v"
  by (simp add: load_le_def store_le_def nth_list_update le_word_split)

lemma load_store_apart: "j + 4 \<le> i \<or> i + 4 \<le> j \<Longrightarrow> load_le (store_le xs i v) j = load_le xs j"
  by (auto simp: load_le_def store_le_def)

lemma nth_store_apart: "j < i \<or> i + 4 \<le> j \<Longrightarrow> store_le xs i v ! j = xs ! j"
  by (auto simp: store_le_def)

lemma position_remove1:
  "position (\<lambda>x. f x = y) xs = Some i \<Longrightarrow> map f (remove_at i xs) = remove1 y (map f xs)"
proof (induction xs arbitrary: i)
  case Nil
  then show ?case by simp
next
  case (Cons x xs)
  then show ?case by (cases i) (auto simp: remove_at_def split: if_splits)
qed

lemma remove_at_distinct:
  "distinct xs \<Longrightarrow> i < length xs \<Longrightarrow> remove_at i xs = remove1 (xs ! i) xs"
proof (induction xs arbitrary: i)
  case Nil
  then show ?case by simp
next
  case (Cons x xs)
  then show ?case by (cases i) (auto simp: remove_at_def)
qed

lemma enumerate_filter_split:
  assumes "c < length xs"
  shows "map snd (filter (\<lambda>(i, x). i = c \<or> P x) (enumerate 0 xs)) =
    filter P (take c xs) @ xs ! c # filter P (drop (Suc c) xs)"
proof -
  have gen: "map snd (filter (\<lambda>(i, x). i = c \<or> P x) (enumerate n ys)) = filter P ys"
    if "c < n \<or> n + length ys \<le> c" for n ys
    using that by (induction ys arbitrary: n) (auto simp: less_Suc_eq)
  have "enumerate 0 xs = enumerate 0 (take c xs @ xs ! c # drop (Suc c) xs)"
    using assms by (simp add: id_take_nth_drop [symmetric])
  also have "\<dots> = enumerate 0 (take c xs) @ (c, xs ! c) # enumerate (Suc c) (drop (Suc c) xs)"
    using assms by (simp add: enumerate_append_eq)
  finally show ?thesis
    using gen [of 0 "take c xs"] gen [of "Suc c" "drop (Suc c) xs"] assms by simp
qed

end
