(* ===== verification/Text_Fmt.thy ===== *)
theory Text_Fmt
  imports Enos_Prelude
begin

text \<open>
  The parts of \<^verbatim>\<open>core::fmt\<close> and \<^verbatim>\<open>str\<close> the kernel uses. A Rust string is the list of
  its bytes; every string the kernel formats or reads from the keyboard is ASCII, so a
  \<^verbatim>\<open>char\<close> is one byte. Integers are printed in decimal or in hexadecimal, fields are padded
  to a width; the \<^verbatim>\<open>str\<close> methods split and trim at white space.
\<close>

section \<open>Console output\<close>

text \<open>
  What the printing macros do, in order: a text for the screen, a cleared screen, a text for the
  serial port. \<^verbatim>\<open>println!\<close> and \<^verbatim>\<open>serial_println!\<close> append a newline.
\<close>

datatype console_op = Screen string | ClearScreen | Serial string

abbreviation newline :: char where
  "newline \<equiv> CHR 0x0A"

definition println :: "string \<Rightarrow> console_op" where
  "println s = Screen (s @ [newline])"

definition serial_println :: "string \<Rightarrow> console_op" where
  "serial_println s = Serial (s @ [newline])"

section \<open>Numbers to text\<close>

definition digit_char :: "nat \<Rightarrow> char" where
  "digit_char d = char_of (48 + d)"

definition is_ascii_digit :: "char \<Rightarrow> bool" where
  "is_ascii_digit c \<longleftrightarrow> 48 \<le> (of_char c :: nat) \<and> (of_char c :: nat) \<le> 57"

definition digit_val :: "char \<Rightarrow> nat" where
  "digit_val c = of_char c - 48"

fun show_nat :: "nat \<Rightarrow> string" where
  "show_nat n = (if n < 10 then [digit_char n] else show_nat (n div 10) @ [digit_char (n mod 10)])"

declare show_nat.simps [simp del]

definition show_int :: "int \<Rightarrow> string" where
  "show_int k = (if k < 0 then CHR ''-'' # show_nat (nat (- k)) else show_nat (nat k))"

abbreviation show_word :: "'a::len word \<Rightarrow> string" where
  "show_word w \<equiv> show_nat (unat w)"

definition hex_digit :: "bool \<Rightarrow> nat \<Rightarrow> char" where
  "hex_digit upper d =
     (if d < 10 then char_of (48 + d) else char_of ((if upper then 55 else 87) + d))"

fun show_hex :: "bool \<Rightarrow> nat \<Rightarrow> string" where
  "show_hex upper n =
     (if n < 16 then [hex_digit upper n]
      else show_hex upper (n div 16) @ [hex_digit upper (n mod 16)])"

declare show_hex.simps [simp del]

text \<open>\<^verbatim>\<open>{:<w}\<close>, \<^verbatim>\<open>{:>w}\<close> and \<^verbatim>\<open>{:0w}\<close>: a field never truncates.\<close>

definition pad_right :: "nat \<Rightarrow> string \<Rightarrow> string" where
  "pad_right w s = s @ replicate (w - length s) CHR '' ''"

definition pad_left :: "nat \<Rightarrow> string \<Rightarrow> string" where
  "pad_left w s = replicate (w - length s) CHR '' '' @ s"

definition pad_zero :: "nat \<Rightarrow> string \<Rightarrow> string" where
  "pad_zero w s = replicate (w - length s) CHR ''0'' @ s"

text \<open>\<^verbatim>\<open>{:#010X}\<close>, \<^verbatim>\<open>{:#x}\<close>: the prefix counts towards the width.\<close>

definition fmt_hex8 :: "u32 \<Rightarrow> string" where
  "fmt_hex8 w = ''0x'' @ pad_zero 8 (show_hex True (unat w))"

definition fmt_hex :: "'a::len word \<Rightarrow> string" where
  "fmt_hex w = ''0x'' @ show_hex False (unat w)"

lemma of_char_digit: "d < 10 \<Longrightarrow> (of_char (digit_char d) :: nat) = 48 + d"
  by (simp add: digit_char_def of_char_of)

lemma is_ascii_digit_digit [simp]: "d < 10 \<Longrightarrow> is_ascii_digit (digit_char d)"
  by (simp add: is_ascii_digit_def of_char_digit)

lemma digit_val_digit [simp]: "d < 10 \<Longrightarrow> digit_val (digit_char d) = d"
  by (simp add: digit_val_def of_char_digit)

lemma show_nat_nonempty [simp]: "show_nat n \<noteq> []"
  by (subst show_nat.simps) simp

lemma show_nat_digits: "\<forall>c \<in> set (show_nat n). is_ascii_digit c"
proof (induction n rule: show_nat.induct)
  case (1 n)
  then show ?case by (subst show_nat.simps) auto
qed

text \<open>Reading digits left to right, the way the kernel's parsers accumulate them.\<close>

fun digits_value :: "nat \<Rightarrow> string \<Rightarrow> nat" where
  "digits_value acc [] = acc"
| "digits_value acc (c # cs) = digits_value (acc * 10 + digit_val c) cs"

lemma digits_value_append: "digits_value acc (xs @ ys) = digits_value (digits_value acc xs) ys"
  by (induction xs arbitrary: acc) auto

lemma digits_value_show: "digits_value 0 (show_nat n) = n"
proof (induction n rule: show_nat.induct)
  case (1 n)
  show ?case
  proof (cases "n < 10")
    case True
    then show ?thesis by (subst show_nat.simps) simp
  next
    case False
    then show ?thesis
      using 1 by (subst show_nat.simps) (simp add: digits_value_append)
  qed
qed

lemma digits_value_mono: "acc \<le> digits_value acc cs"
proof (induction cs arbitrary: acc)
  case Nil
  then show ?case by simp
next
  case (Cons c cs)
  have "acc \<le> acc * 10 + digit_val c" by simp
  also have "\<dots> \<le> digits_value (acc * 10 + digit_val c) cs" by (rule Cons.IH)
  finally show ?case by simp
qed

lemma length_pad:
  "length (pad_right w s) = max w (length s)" "length (pad_left w s) = max w (length s)"
  "length (pad_zero w s) = max w (length s)"
  by (simp_all add: pad_right_def pad_left_def pad_zero_def)

section \<open>White space\<close>

text \<open>
  \<^verbatim>\<open>char::is_whitespace\<close> on ASCII (tab to carriage return, space), used by the \<^verbatim>\<open>str\<close>
  methods, and \<^verbatim>\<open>u8::is_ascii_whitespace\<close>, which leaves out the vertical tab.
\<close>

definition is_whitespace :: "char \<Rightarrow> bool" where
  "is_whitespace c \<longleftrightarrow>
     (9 \<le> (of_char c :: nat) \<and> (of_char c :: nat) \<le> 13) \<or> (of_char c :: nat) = 32"

definition is_ascii_whitespace :: "char \<Rightarrow> bool" where
  "is_ascii_whitespace c \<longleftrightarrow> (of_char c :: nat) \<in> {9, 10, 12, 13, 32}"

definition trim_start :: "string \<Rightarrow> string" where
  "trim_start s = dropWhile is_whitespace s"

definition trim_end :: "string \<Rightarrow> string" where
  "trim_end s = rev (dropWhile is_whitespace (rev s))"

definition trim :: "string \<Rightarrow> string" where
  "trim s = trim_end (trim_start s)"

text \<open>\<^verbatim>\<open>str::split_whitespace\<close>: the maximal runs of characters that are no white space.\<close>

function split_whitespace :: "string \<Rightarrow> string list" where
  "split_whitespace s =
     (case trim_start s of
        [] \<Rightarrow> []
      | c # cs \<Rightarrow> (c # takeWhile (\<lambda>x. \<not> is_whitespace x) cs) #
                  split_whitespace (dropWhile (\<lambda>x. \<not> is_whitespace x) cs))"
  by pat_completeness auto
termination
proof (relation "measure length")
  fix s :: string and c cs
  assume "trim_start s = c # cs"
  then have "length (c # cs) \<le> length s"
    by (metis length_dropWhile_le trim_start_def)
  moreover have "length (dropWhile (\<lambda>x. \<not> is_whitespace x) cs) \<le> length cs"
    by (rule length_dropWhile_le)
  ultimately show "(dropWhile (\<lambda>x. \<not> is_whitespace x) cs, s) \<in> measure length" by simp
qed simp

declare split_whitespace.simps [simp del]

text \<open>\<^verbatim>\<open>str::splitn(n, ' ')\<close>: the last of at most \<open>n\<close> pieces is the unsplit rest.\<close>

fun splitn_space :: "nat \<Rightarrow> string \<Rightarrow> string list" where
  "splitn_space 0 s = []"
| "splitn_space (Suc 0) s = [s]"
| "splitn_space (Suc (Suc n)) s =
     (case dropWhile (\<lambda>c. c \<noteq> CHR '' '') s of
        [] \<Rightarrow> [s]
      | _ # rest \<Rightarrow> takeWhile (\<lambda>c. c \<noteq> CHR '' '') s # splitn_space (Suc n) rest)"

definition strip_prefix :: "string \<Rightarrow> string \<Rightarrow> string option" where
  "strip_prefix p s = (if take (length p) s = p then Some (drop (length p) s) else None)"

text \<open>\<^verbatim>\<open>str::parse::<usize>\<close>: an optional plus sign, at least one digit, no overflow.\<close>

definition parse_usize :: "string \<Rightarrow> usize option" where
  "parse_usize s =
     (let ds = (case s of c # cs \<Rightarrow> if c = CHR ''+'' then cs else s | [] \<Rightarrow> s) in
      if ds = [] \<or> \<not> list_all is_ascii_digit ds then None
      else if digits_value 0 ds < 2 ^ 32 then Some (of_nat (digits_value 0 ds)) else None)"

lemma digit_not_plus: "is_ascii_digit c \<Longrightarrow> c \<noteq> CHR ''+''"
  by (auto simp: is_ascii_digit_def)

lemma parse_usize_show: "parse_usize (show_word w) = Some w"
proof -
  obtain c cs where sw: "show_word w = c # cs" by (cases "show_word w") auto
  have "c \<noteq> CHR ''+''"
    using show_nat_digits [of "unat w"] by (auto simp: sw dest: digit_not_plus)
  moreover have "list_all is_ascii_digit (c # cs)"
    using show_nat_digits [of "unat w"] by (simp add: sw list_all_iff)
  moreover have "digits_value 0 (c # cs) = unat w"
    using digits_value_show [of "unat w"] by (simp add: sw)
  moreover have "unat w < 2 ^ 32" using unsigned_less [of w, where 'a = nat] by simp
  ultimately show ?thesis
    by (simp add: parse_usize_def Let_def sw del: digits_value.simps list.pred_inject)
qed

lemma whitespace_not_digit: "is_ascii_digit c \<Longrightarrow> \<not> is_whitespace c \<and> \<not> is_ascii_whitespace c"
  by (auto simp: is_ascii_digit_def is_whitespace_def is_ascii_whitespace_def)

lemma split_word_rest:
  assumes "w \<noteq> []" and "\<forall>c \<in> set w. \<not> is_whitespace c"
    and "rest = [] \<or> is_whitespace (hd rest)"
  shows "split_whitespace (w @ rest) = w # split_whitespace rest"
proof -
  obtain c cs where w: "w = c # cs" using assms(1) by (cases w) auto
  have "takeWhile (\<lambda>x. \<not> is_whitespace x) (cs @ rest) = cs"
    and "dropWhile (\<lambda>x. \<not> is_whitespace x) (cs @ rest) = rest"
    using assms(2,3) by (cases rest; auto simp: w)+
  then show ?thesis
    using assms(2) by (subst split_whitespace.simps) (simp add: w trim_start_def)
qed

lemma split_skip_space: "is_whitespace c \<Longrightarrow> split_whitespace (c # s) = split_whitespace s"
  by (subst (1 2) split_whitespace.simps) (simp add: trim_start_def)

lemma split_whitespace_Nil [simp]: "split_whitespace [] = []"
  by (subst split_whitespace.simps) (simp add: trim_start_def)

lemma trim_id:
  assumes "s \<noteq> []" "\<not> is_whitespace (hd s)" "\<not> is_whitespace (last s)"
  shows "trim s = s"
proof -
  have "dropWhile is_whitespace s = s" using assms(1,2) by (cases s) auto
  moreover have "dropWhile is_whitespace (rev s) = rev s"
    using assms(1,3) by (cases s rule: rev_cases) auto
  ultimately show ?thesis by (simp add: trim_def trim_start_def trim_end_def)
qed

lemma trim_start_id: "s = [] \<or> \<not> is_whitespace (hd s) \<Longrightarrow> trim_start s = s"
  by (cases s) (auto simp: trim_start_def)

lemma set_trim: "set (trim s) \<subseteq> set s"
proof
  fix c assume "c \<in> set (trim s)"
  then have "c \<in> set (rev (trim_start s))" unfolding trim_def trim_end_def
    by (metis set_dropWhileD set_rev)
  then show "c \<in> set s" unfolding trim_start_def by (metis set_dropWhileD set_rev)
qed

lemma length_trim: "length (trim s) \<le> length s"
proof -
  have "length (trim s) \<le> length (trim_start s)" unfolding trim_def trim_end_def
    by (metis length_dropWhile_le length_rev)
  also have "\<dots> \<le> length s" unfolding trim_start_def by (rule length_dropWhile_le)
  finally show ?thesis .
qed

lemma split_two_words:
  assumes "w \<noteq> []" "\<forall>c \<in> set w. \<not> is_whitespace c" "v \<noteq> []" "\<forall>c \<in> set v. \<not> is_whitespace c"
  shows "split_whitespace (w @ CHR '' '' # v) = [w, v]"
proof -
  have "is_whitespace CHR '' ''" by (simp add: is_whitespace_def)
  then show ?thesis
    using split_word_rest [OF assms(1,2), of "CHR '' '' # v"] split_word_rest [OF assms(3,4), of "[]"]
    by (simp add: split_skip_space)
qed

lemma splitn_words:
  assumes "CHR '' '' \<notin> set w"
  shows "splitn_space (Suc (Suc n)) (w @ CHR '' '' # s) = w # splitn_space (Suc n) s"
proof -
  have "dropWhile (\<lambda>c. c \<noteq> CHR '' '') (w @ CHR '' '' # s) = CHR '' '' # s"
    "takeWhile (\<lambda>c. c \<noteq> CHR '' '') (w @ CHR '' '' # s) = w"
    using assms by (induction w) auto
  then show ?thesis by simp
qed

end
