(* ===== verification/Devices.thy ===== *)
theory Devices
  imports Text_Fmt
begin

text \<open>
  The three port-mapped devices the kernel drives: the interrupt controllers
  (\<^verbatim>\<open>src/src/pic.rs\<close>), the interval timer (\<^verbatim>\<open>src/src/pit.rs\<close>) and the serial port
  (\<^verbatim>\<open>src/src/serial.rs\<close>). A driver function is the list of the port writes it makes, in
  order; what a device answers to a port read is an argument. The effect of the writes is
  stated on the registers the devices' data sheets describe.
\<close>

datatype port_op = Out (out_port: u16) (out_value: u8)

section \<open>Interrupt controllers\<close>

definition PIC1_CMD :: u16 where "PIC1_CMD = 0x20"
definition PIC1_DATA :: u16 where "PIC1_DATA = 0x21"
definition PIC2_CMD :: u16 where "PIC2_CMD = 0xA0"
definition PIC2_DATA :: u16 where "PIC2_DATA = 0xA1"
definition PIC_EOI :: u8 where "PIC_EOI = 0x20"
definition PIC_1_OFFSET :: u8 where "PIC_1_OFFSET = 32"
definition PIC_2_OFFSET :: u8 where "PIC_2_OFFSET = PIC_1_OFFSET + 8"

record chained_pics =
  offset1 :: u8
  offset2 :: u8

definition PICS :: chained_pics where
  "PICS = \<lparr>offset1 = PIC_1_OFFSET, offset2 = PIC_2_OFFSET\<rparr>"

definition iowait :: port_op where
  "iowait = Out 0x80 0"

definition pics_initialize :: "chained_pics \<Rightarrow> port_op list" where
  "pics_initialize p =
     [Out PIC1_CMD 0x11, iowait, Out PIC2_CMD 0x11, iowait,
      Out PIC1_DATA (offset1 p), iowait, Out PIC2_DATA (offset2 p), iowait,
      Out PIC1_DATA 4, iowait, Out PIC2_DATA 2, iowait,
      Out PIC1_DATA 0x01, iowait, Out PIC2_DATA 0x01, iowait,
      Out PIC1_DATA 0xF8, Out PIC2_DATA 0xFF]"

definition handles_interrupt :: "chained_pics \<Rightarrow> u8 \<Rightarrow> bool run" where
  "handles_interrupt p interrupt_id =
     (if \<not> offset1 p \<le> interrupt_id then Ret False
      else rbind (add_ov (offset2 p) 8) (\<lambda>limit. Ret (interrupt_id < limit)))"

definition notify_end_of_interrupt :: "chained_pics \<Rightarrow> u8 \<Rightarrow> port_op list run" where
  "notify_end_of_interrupt p interrupt_id =
     rbind (handles_interrupt p interrupt_id) (\<lambda>handled.
       Ret (if handled
            then (if interrupt_id \<ge> offset2 p then [Out PIC2_CMD PIC_EOI] else []) @
                 [Out PIC1_CMD PIC_EOI]
            else []))"

definition pic_ack :: "u8 \<Rightarrow> port_op list run" where
  "pic_ack irq_idx = notify_end_of_interrupt PICS irq_idx"

text \<open>
  The 8259A's side of the protocol: command byte 0x11 starts an initialisation that takes the
  next three data bytes as vector base, cascade wiring and mode; a data byte outside it sets
  the interrupt mask; the command 0x20 ends the interrupt in service with the highest priority,
  the lowest set bit of the in-service register.
\<close>

datatype icw = Operational | WantBase | WantCascade | WantMode

record pic8259 =
  expecting :: icw
  vector_base :: u8
  cascade :: u8
  x86_mode :: bool
  mask :: u8
  in_service :: u8

definition pic_command :: "u8 \<Rightarrow> pic8259 \<Rightarrow> pic8259" where
  "pic_command v c =
     (if v = 0x11 then c\<lparr>expecting := WantBase, mask := 0, in_service := 0\<rparr>
      else if v = 0x20 then c\<lparr>in_service := in_service c AND (in_service c - 1)\<rparr> else c)"

definition pic_data :: "u8 \<Rightarrow> pic8259 \<Rightarrow> pic8259" where
  "pic_data v c =
     (case expecting c of
        Operational \<Rightarrow> c\<lparr>mask := v\<rparr>
      | WantBase \<Rightarrow> c\<lparr>vector_base := v, expecting := WantCascade\<rparr>
      | WantCascade \<Rightarrow> c\<lparr>cascade := v, expecting := WantMode\<rparr>
      | WantMode \<Rightarrow> c\<lparr>x86_mode := (v = 1), expecting := Operational\<rparr>)"

definition pic_write :: "port_op \<Rightarrow> pic8259 \<times> pic8259 \<Rightarrow> pic8259 \<times> pic8259" where
  "pic_write w c =
     (if out_port w = 0x20 then (pic_command (out_value w) (fst c), snd c)
      else if out_port w = 0x21 then (pic_data (out_value w) (fst c), snd c)
      else if out_port w = 0xA0 then (fst c, pic_command (out_value w) (snd c))
      else if out_port w = 0xA1 then (fst c, pic_data (out_value w) (snd c))
      else c)"

text \<open>The vector the pair delivers for a hardware line, none if the line is masked.\<close>

definition irq_vector :: "pic8259 \<times> pic8259 \<Rightarrow> nat \<Rightarrow> nat option" where
  "irq_vector c irq =
     (if irq < 8 then
        (if bit (mask (fst c)) irq then None else Some (unat (vector_base (fst c)) + irq))
      else if irq < 16 \<and> \<not> bit (mask (fst c)) 2 \<and> \<not> bit (mask (snd c)) (irq - 8)
      then Some (unat (vector_base (snd c)) + (irq - 8)) else None)"

lemmas pic_ports = PIC1_CMD_def PIC1_DATA_def PIC2_CMD_def PIC2_DATA_def PIC_EOI_def
  PIC_1_OFFSET_def PIC_2_OFFSET_def

lemma initialized_pics:
  "fold pic_write (pics_initialize p) (c1, c2) =
     (\<lparr>expecting = Operational, vector_base = offset1 p, cascade = 4, x86_mode = True, mask = 0xF8,
       in_service = 0\<rparr>,
      \<lparr>expecting = Operational, vector_base = offset2 p, cascade = 2, x86_mode = True, mask = 0xFF,
       in_service = 0\<rparr>)"
  by (simp add: pics_initialize_def pic_write_def pic_command_def pic_data_def iowait_def pic_ports)

lemma mask_F8: "n < 8 \<Longrightarrow> bit (0xF8 :: u8) n \<longleftrightarrow> 3 \<le> n"
  by (auto simp: less_Suc_eq numeral_eq_Suc bit_Suc)

lemma mask_FF: "n < 8 \<Longrightarrow> bit (0xFF :: u8) n"
  by (auto simp: less_Suc_eq numeral_eq_Suc bit_Suc)

section \<open>Interval timer\<close>

definition PIT_CHANNEL0 :: u16 where "PIT_CHANNEL0 = 0x40"
definition PIT_COMMAND :: u16 where "PIT_COMMAND = 0x43"
definition PIT_INPUT_HZ :: u32 where "PIT_INPUT_HZ = 1193182"
definition DEFAULT_HZ :: u32 where "DEFAULT_HZ = 100"
definition TICKS_PER_SECOND :: u64 where "TICKS_PER_SECOND = 100"

definition clamp_u32 :: "u32 \<Rightarrow> u32 \<Rightarrow> u32 \<Rightarrow> u32" where
  "clamp_u32 x lo hi = (if x < lo then lo else if x > hi then hi else x)"

definition pit_divisor :: "u32 \<Rightarrow> u32" where
  "pit_divisor requested_hz =
     (let hz = (if requested_hz = 0 then DEFAULT_HZ else requested_hz) in
      clamp_u32 (PIT_INPUT_HZ div hz) 1 65535)"

definition pit_init :: "u32 \<Rightarrow> port_op list \<times> console_op list" where
  "pit_init requested_hz =
     (let hz = (if requested_hz = 0 then DEFAULT_HZ else requested_hz);
          divisor_u32 = pit_divisor requested_hz;
          divisor = (ucast divisor_u32 :: u16);
          actual_hz = PIT_INPUT_HZ div divisor_u32
      in ([Out PIT_COMMAND 0x36,
           Out PIT_CHANNEL0 (ucast (divisor AND 0x00FF)),
           Out PIT_CHANNEL0 (ucast (drop_bit 8 divisor))],
          [serial_println (''PIT: configured to '' @ show_word actual_hz @ '' Hz (requested '' @ show_word hz @
             '' Hz, divisor '' @ show_word divisor @ '').'')]))"

definition pit_init_default :: "port_op list \<times> console_op list" where
  "pit_init_default = pit_init DEFAULT_HZ"

definition ticks_to_millis :: "u64 \<Rightarrow> u64" where
  "ticks_to_millis ticks = saturating_mul ticks 1000 div TICKS_PER_SECOND"

lemma pit_divisor_bounds: "1 \<le> unat (pit_divisor hz) \<and> unat (pit_divisor hz) \<le> 65535"
proof -
  have "1 \<le> unat (clamp_u32 x 1 65535) \<and> unat (clamp_u32 x 1 65535) \<le> 65535" for x
    by (auto simp: clamp_u32_def word_less_nat_alt)
  then show ?thesis by (simp add: pit_divisor_def Let_def)
qed

lemma pit_divisor_default: "unat (pit_divisor DEFAULT_HZ) = 11931"
  by (simp add: pit_divisor_def clamp_u32_def DEFAULT_HZ_def PIT_INPUT_HZ_def)

lemma u16_bytes: "ucast (ucast (v AND 0x00FF) :: u8) OR push_bit 8 (ucast (ucast (drop_bit 8 v) :: u8)) = v"
  for v :: u16
proof (rule bit_word_eqI)
  fix n assume n: "n < LENGTH(16)"
  have "v AND 0x00FF = take_bit 8 v" by (simp add: take_bit_eq_mask mask_eq_exp_minus_1)
  then show "bit (ucast (ucast (v AND 0x00FF) :: u8) OR
      push_bit 8 (ucast (ucast (drop_bit 8 v) :: u8)) :: u16) n = bit v n"
    using n by (auto simp: bit_or_iff bit_push_bit_iff bit_ucast_iff bit_drop_bit_eq bit_take_bit_iff)
qed

lemma unat_ucast_divisor: "unat (ucast (pit_divisor hz) :: u16) = unat (pit_divisor hz)"
  using pit_divisor_bounds [of hz] by (simp add: unsigned_ucast_eq take_bit_nat_eq_self)

section \<open>Serial port\<close>

record serial_port =
  port :: u16

definition SERIAL1 :: serial_port where
  "SERIAL1 = \<lparr>port = 0x3F8\<rparr>"

text \<open>The port number plus a register offset below 8 cannot overflow for the port 0x3F8.\<close>

definition serial_outb :: "serial_port \<Rightarrow> u16 \<Rightarrow> u8 \<Rightarrow> port_op" where
  "serial_outb sp offset value = Out (port sp + offset) value"

definition serial_init :: "serial_port \<Rightarrow> port_op list" where
  "serial_init sp =
     [serial_outb sp 1 0x00, serial_outb sp 3 0x80, serial_outb sp 0 0x03, serial_outb sp 1 0x00,
      serial_outb sp 3 0x03, serial_outb sp 2 0xC7, serial_outb sp 4 0x0B]"

text \<open>\<open>lsr t\<close> is what the \<open>t\<close>-th read of the line status register returns.\<close>

definition is_transmit_empty :: "(nat \<Rightarrow> u8) \<Rightarrow> nat \<Rightarrow> bool" where
  "is_transmit_empty lsr t \<longleftrightarrow> lsr t AND 0x20 \<noteq> 0"

partial_function (option) wait_transmit :: "(nat \<Rightarrow> u8) \<Rightarrow> nat \<Rightarrow> nat option" where
  "wait_transmit lsr t =
     (if \<not> is_transmit_empty lsr t then wait_transmit lsr (Suc t) else Some (Suc t))"

definition serial_write_byte ::
    "(nat \<Rightarrow> u8) \<Rightarrow> serial_port \<Rightarrow> u8 \<Rightarrow> nat \<Rightarrow> (port_op list \<times> nat) option" where
  "serial_write_byte lsr sp byte t =
     map_option (\<lambda>t'. ([serial_outb sp 0 byte], t')) (wait_transmit lsr t)"

fun serial_write_str ::
    "(nat \<Rightarrow> u8) \<Rightarrow> serial_port \<Rightarrow> u8 list \<Rightarrow> nat \<Rightarrow> (port_op list \<times> nat) option" where
  "serial_write_str lsr sp [] t = Some ([], t)"
| "serial_write_str lsr sp (b # bs) t =
     Option.bind
       (if b = 0x0A
        then Option.bind (serial_write_byte lsr sp 0x0D t) (\<lambda>(w1, t1).
               map_option (\<lambda>(w2, t2). (w1 @ w2, t2)) (serial_write_byte lsr sp 0x0A t1))
        else serial_write_byte lsr sp b t)
       (\<lambda>(w, t1). map_option (\<lambda>(ws, t2). (w @ ws, t2)) (serial_write_str lsr sp bs t1))"

definition crlf :: "u8 list \<Rightarrow> u8 list" where
  "crlf bs = concat (map (\<lambda>b. if b = 0x0A then [0x0D, 0x0A] else [b]) bs)"

lemma wait_transmit_returns:
  assumes "is_transmit_empty lsr t'" "t \<le> t'"
  shows "\<exists>t2. wait_transmit lsr t = Some t2"
  using assms(2)
proof (induction rule: inc_induct)
  case base
  show ?case using assms(1) by (subst wait_transmit.simps) simp
next
  case (step n)
  then show ?case by (subst wait_transmit.simps) simp
qed

lemma serial_write_byte_returns:
  assumes "\<forall>t. \<exists>t' \<ge> t. is_transmit_empty lsr t'"
  shows "\<exists>t2. serial_write_byte lsr sp b t = Some ([serial_outb sp 0 b], t2)"
  using assms wait_transmit_returns [of lsr _ t] by (force simp: serial_write_byte_def)

section \<open>Properties\<close>

text \<open>Whatever state the two interrupt controllers are in, the initialisation leaves the
  pair delivering exactly the timer, keyboard and cascade lines, as the vectors 32, 33 and 34,
  clear of the 32 processor exceptions, in x86 mode with the cascade wired to line 2.\<close>

lemma pics_remapped:
  assumes "irq < 16"
  shows "irq_vector (fold pic_write (pics_initialize PICS) c) irq =
     (if irq < 3 then Some (32 + irq) else None) \<and>
     x86_mode (fst (fold pic_write (pics_initialize PICS) c)) \<and>
     x86_mode (snd (fold pic_write (pics_initialize PICS) c)) \<and>
     cascade (fst (fold pic_write (pics_initialize PICS) c)) = 2 ^ unat
       (cascade (snd (fold pic_write (pics_initialize PICS) c)))"
  using assms initialized_pics [of PICS "fst c" "snd c"] mask_FF [of "irq - 8"] mask_F8 [of irq]
  by (cases "irq < 8") (auto simp: irq_vector_def PICS_def pic_ports)

text \<open>The acknowledgement of a vector never overflows and goes to the controllers that
  delivered it: the first for 32 to 39, both (second first) for 40 to 47, neither otherwise.\<close>

lemma pic_ack_targets:
  "pic_ack v = Ret (if 32 \<le> unat v \<and> unat v < 40 then [Out PIC1_CMD PIC_EOI]
     else if 40 \<le> unat v \<and> unat v < 48 then [Out PIC2_CMD PIC_EOI, Out PIC1_CMD PIC_EOI] else [])"
proof -
  have "add_ov (PIC_2_OFFSET) (8 :: u8) = Inr 48" by (simp add: add_ov_def pic_ports)
  then show ?thesis
    by (auto simp: pic_ack_def notify_end_of_interrupt_def handles_interrupt_def PICS_def pic_ports
        word_le_nat_alt word_less_nat_alt)
qed

text \<open>For every requested frequency the two bytes written to the timer's channel 0 are the
  low and high byte of the divisor, which is between 1 and 65535, so the counter is never loaded
  with zero; the default of 100 Hz loads 11931.\<close>

lemma pit_programmed:
  "\<exists>lo hi. fst (pit_init hz) = [Out 0x43 0x36, Out 0x40 lo, Out 0x40 hi] \<and>
     unat (ucast lo OR push_bit 8 (ucast hi) :: u16) = unat (pit_divisor hz) \<and>
     1 \<le> unat (pit_divisor hz) \<and> unat (pit_divisor hz) \<le> 65535 \<and>
     unat (pit_divisor DEFAULT_HZ) = 11931"
  unfolding pit_init_def Let_def PIT_COMMAND_def PIT_CHANNEL0_def
  using u16_bytes [of "ucast (pit_divisor hz)"] unat_ucast_divisor [of hz] pit_divisor_bounds [of hz]
  by (simp add: pit_divisor_default)

text \<open>100 ticks are one second: a tick count converts to exactly ten milliseconds per tick
  as long as the product fits 64 bits, and beyond that to the largest convertible value.\<close>

lemma ticks_to_millis_exact:
  "unat (ticks_to_millis t) =
     (if unat t * 1000 < 2 ^ 64 then unat t * 10 else (2 ^ 64 - 1) div 100)"
  by (simp add: ticks_to_millis_def unat_div saturating_mul_unat TICKS_PER_SECOND_def)

text \<open>C38: if the transmitter becomes ready again and again, printing a string returns and sends
  exactly its bytes, in order, with a carriage return before every newline.\<close>

theorem serial_delivers:
  assumes "\<forall>t. \<exists>t' \<ge> t. is_transmit_empty lsr t'"
  shows "\<exists>t'. serial_write_str lsr SERIAL1 bs t = Some (map (Out 0x3F8) (crlf bs), t')"
proof (induction bs arbitrary: t)
  case Nil
  then show ?case by (simp add: crlf_def)
next
  case (Cons b bs)
  have wb: "\<exists>t2. serial_write_byte lsr SERIAL1 x u = Some ([Out 0x3F8 x], t2)" for x u
    using serial_write_byte_returns [OF assms, of SERIAL1 x u]
    by (simp add: serial_outb_def SERIAL1_def)
  obtain t1 where t1: "serial_write_byte lsr SERIAL1 (if b = 0x0A then 0x0D else b) t =
      Some ([Out 0x3F8 (if b = 0x0A then 0x0D else b)], t1)" using wb by blast
  obtain t2 where t2: "serial_write_byte lsr SERIAL1 0x0A t1 = Some ([Out 0x3F8 0x0A], t2)"
    using wb by blast
  show ?case
    using Cons.IH [of t1] Cons.IH [of t2] t1 t2 by (auto simp: crlf_def split: if_splits)
qed

theorem serial_delivers_witness:
  "\<exists>t'. serial_write_str (\<lambda>t. 0x60) SERIAL1 [0x41, 0x0A] 0 =
     Some ([Out 0x3F8 0x41, Out 0x3F8 0x0D, Out 0x3F8 0x0A], t')"
  using serial_delivers [of "\<lambda>t. 0x60" "[0x41, 0x0A]" 0]
  by (force simp: is_transmit_empty_def crlf_def)

end
