(* ===== verification/Vga_Buffer.thy ===== *)
theory Vga_Buffer
  imports Text_Fmt Devices
begin

text \<open>
  The text screen of \<^verbatim>\<open>src/src/vga_buffer.rs\<close>: a buffer of 25 rows of 80 cells that the
  kernel writes at the bottom row and scrolls up. Cells are read and written by index, which
  panics out of range; a write through \<^verbatim>\<open>Volatile\<close> is a plain write. The reference is a
  terminal that keeps every line ever scrolled up; the buffer is a window on it.
\<close>

section \<open>Colours and cells\<close>

datatype color =
    Black | Blue | Green | Cyan | Red | Magenta | Brown | LightGray
  | DarkGray | LightBlue | LightGreen | LightCyan | LightRed | Pink | Yellow | White

fun color_value :: "color \<Rightarrow> u8" where
  "color_value Black = 0"
| "color_value Blue = 1"
| "color_value Green = 2"
| "color_value Cyan = 3"
| "color_value Red = 4"
| "color_value Magenta = 5"
| "color_value Brown = 6"
| "color_value LightGray = 7"
| "color_value DarkGray = 8"
| "color_value LightBlue = 9"
| "color_value LightGreen = 10"
| "color_value LightCyan = 11"
| "color_value LightRed = 12"
| "color_value Pink = 13"
| "color_value Yellow = 14"
| "color_value White = 15"

definition color_code_new :: "color \<Rightarrow> color \<Rightarrow> u8" where
  "color_code_new foreground background = push_bit 4 (color_value background) OR color_value foreground"

record screen_char =
  ascii_character :: char
  char_color :: u8

definition BUFFER_HEIGHT :: nat where "BUFFER_HEIGHT = 25"
definition BUFFER_WIDTH :: nat where "BUFFER_WIDTH = 80"

type_synonym row = "screen_char list"
type_synonym buffer = "row list"

record writer =
  column_position :: nat
  color_code :: u8
  chars :: buffer

definition WRITER :: "buffer \<Rightarrow> writer" where
  "WRITER memory =
     \<lparr>column_position = 0, color_code = color_code_new LightGreen Black, chars = memory\<rparr>"

definition cell_read :: "nat \<Rightarrow> nat \<Rightarrow> buffer \<Rightarrow> screen_char run" where
  "cell_read r c b = (if r < length b \<and> c < length (b ! r) then Ret (b ! r ! c) else Panic IndexOutOfBounds)"

definition cell_write :: "nat \<Rightarrow> nat \<Rightarrow> screen_char \<Rightarrow> buffer \<Rightarrow> buffer run" where
  "cell_write r c x b =
     (if r < length b \<and> c < length (b ! r) then Ret (b[r := (b ! r)[c := x]]) else Panic IndexOutOfBounds)"

section \<open>The writer\<close>

fun copy_cells :: "nat \<Rightarrow> nat list \<Rightarrow> buffer \<Rightarrow> buffer run" where
  "copy_cells r [] b = Ret b"
| "copy_cells r (c # cs) b =
     rbind (cell_read r c b) (\<lambda>character.
     rbind (cell_write (r - 1) c character b) (copy_cells r cs))"

fun scroll_rows :: "nat list \<Rightarrow> buffer \<Rightarrow> buffer run" where
  "scroll_rows [] b = Ret b"
| "scroll_rows (r # rs) b = rbind (copy_cells r [0..<BUFFER_WIDTH] b) (scroll_rows rs)"

fun fill_cells :: "screen_char \<Rightarrow> nat \<Rightarrow> nat list \<Rightarrow> buffer \<Rightarrow> buffer run" where
  "fill_cells x r [] b = Ret b"
| "fill_cells x r (c # cs) b = rbind (cell_write r c x b) (fill_cells x r cs)"

definition blank_cell :: "u8 \<Rightarrow> screen_char" where
  "blank_cell color = \<lparr>ascii_character = CHR '' '', char_color = color\<rparr>"

definition clear_row :: "nat \<Rightarrow> writer \<Rightarrow> writer run" where
  "clear_row r w =
     rbind (fill_cells (blank_cell (color_code w)) r [0..<BUFFER_WIDTH] (chars w)) (\<lambda>b.
       Ret (w\<lparr>chars := b\<rparr>))"

definition new_line :: "writer \<Rightarrow> writer run" where
  "new_line w =
     rbind (scroll_rows [1..<BUFFER_HEIGHT] (chars w)) (\<lambda>b.
     rbind (clear_row (BUFFER_HEIGHT - 1) (w\<lparr>chars := b\<rparr>)) (\<lambda>w.
       Ret (w\<lparr>column_position := 0\<rparr>)))"

definition vga_write_byte :: "char \<Rightarrow> writer \<Rightarrow> writer run" where
  "vga_write_byte byte w =
     (if byte = newline then new_line w
      else rbind (if column_position w \<ge> BUFFER_WIDTH then new_line w else Ret w) (\<lambda>w.
        rbind (cell_write (BUFFER_HEIGHT - 1) (column_position w)
                 \<lparr>ascii_character = byte, char_color = color_code w\<rparr> (chars w)) (\<lambda>b.
          Ret (w\<lparr>chars := b, column_position := column_position w + 1\<rparr>))))"

definition backspace :: "writer \<Rightarrow> writer run" where
  "backspace w =
     (if column_position w > 0
      then let col = column_position w - 1
           in rbind (cell_write (BUFFER_HEIGHT - 1) col (blank_cell (color_code w)) (chars w)) (\<lambda>b.
                Ret (w\<lparr>column_position := col, chars := b\<rparr>))
      else Ret w)"

definition write_string_byte :: "char \<Rightarrow> writer \<Rightarrow> writer run" where
  "write_string_byte byte w =
     (if byte = CHR 0x08 then backspace w
      else if 0x20 \<le> (of_char byte :: nat) \<and> (of_char byte :: nat) \<le> 0x7E \<or> byte = newline
      then vga_write_byte byte w
      else vga_write_byte (CHR 0xFE) w)"

fun write_bytes :: "string \<Rightarrow> writer \<Rightarrow> writer run" where
  "write_bytes [] w = Ret w"
| "write_bytes (byte # s) w = rbind (write_string_byte byte w) (write_bytes s)"

definition update_cursor :: "writer \<Rightarrow> port_op list" where
  "update_cursor w =
     (let pos_u16 = of_nat ((BUFFER_HEIGHT - 1) * BUFFER_WIDTH + column_position w) :: u16
      in [Out 0x3D4 0x0E, Out 0x3D5 (ucast (drop_bit 8 pos_u16)),
          Out 0x3D4 0x0F, Out 0x3D5 (ucast (pos_u16 AND 0xFF))])"

definition write_string :: "string \<Rightarrow> writer \<Rightarrow> (writer \<times> port_op list) run" where
  "write_string s w = rbind (write_bytes s w) (\<lambda>w. Ret (w, update_cursor w))"

fun clear_rows :: "nat list \<Rightarrow> writer \<Rightarrow> writer run" where
  "clear_rows [] w = Ret w"
| "clear_rows (r # rs) w = rbind (clear_row r w) (clear_rows rs)"

definition clear_screen :: "writer \<Rightarrow> (writer \<times> port_op list) run" where
  "clear_screen w =
     rbind (clear_rows [0..<BUFFER_HEIGHT] w) (\<lambda>w.
       let w = w\<lparr>column_position := 0\<rparr> in Ret (w, update_cursor w))"

text \<open>\<^verbatim>\<open>write_fmt\<close> passes the pieces of a formatted text to \<^verbatim>\<open>write_str\<close> one by one.\<close>

fun vga_print :: "string list \<Rightarrow> writer \<Rightarrow> (writer \<times> port_op list) run" where
  "vga_print [] w = Ret (w, [])"
| "vga_print (piece # pieces) w =
     rbind (write_string piece w) (\<lambda>(w, out).
     rbind (vga_print pieces w) (\<lambda>(w, out'). Ret (w, out @ out')))"

section \<open>The terminal\<close>

text \<open>
  \<open>scrolled\<close> holds every row that has left the bottom of the screen, oldest first;
  \<open>pending\<close> the cells written since; \<open>background\<close> what the bottom row held before.
\<close>

record terminal =
  scrolled :: "row list"
  pending :: row
  background :: row

definition bottom_row :: "terminal \<Rightarrow> row" where
  "bottom_row t = pending t @ drop (length (pending t)) (background t)"

definition blank_row :: "u8 \<Rightarrow> row" where
  "blank_row color = replicate BUFFER_WIDTH (blank_cell color)"

definition term_newline :: "u8 \<Rightarrow> terminal \<Rightarrow> terminal" where
  "term_newline color t =
     \<lparr>scrolled = scrolled t @ [bottom_row t], pending = [], background = blank_row color\<rparr>"

definition term_put :: "u8 \<Rightarrow> char \<Rightarrow> terminal \<Rightarrow> terminal" where
  "term_put color c t =
     (let t = (if length (pending t) = BUFFER_WIDTH then term_newline color t else t)
      in t\<lparr>pending := pending t @ [\<lparr>ascii_character = c, char_color = color\<rparr>]\<rparr>)"

definition term_erase :: "u8 \<Rightarrow> terminal \<Rightarrow> terminal" where
  "term_erase color t =
     (if pending t = [] then t
      else t\<lparr>pending := butlast (pending t),
             background := (background t)[length (pending t) - 1 := blank_cell color]\<rparr>)"

definition term_byte :: "u8 \<Rightarrow> char \<Rightarrow> terminal \<Rightarrow> terminal" where
  "term_byte color c t =
     (if c = CHR 0x08 then term_erase color t
      else if c = newline then term_newline color t
      else if 0x20 \<le> (of_char c :: nat) \<and> (of_char c :: nat) \<le> 0x7E then term_put color c t
      else term_put color (CHR 0xFE) t)"

definition term_write :: "u8 \<Rightarrow> string \<Rightarrow> terminal \<Rightarrow> terminal" where
  "term_write color s t = fold (term_byte color) s t"

definition term_ok :: "terminal \<Rightarrow> bool" where
  "term_ok t \<longleftrightarrow>
     BUFFER_HEIGHT - 1 \<le> length (scrolled t) \<and> (\<forall>r \<in> set (scrolled t). length r = BUFFER_WIDTH) \<and>
     length (pending t) \<le> BUFFER_WIDTH \<and> length (background t) = BUFFER_WIDTH"

text \<open>The screen that shows the last 25 rows of the terminal.\<close>

definition screen_of :: "u8 \<Rightarrow> terminal \<Rightarrow> writer" where
  "screen_of color t =
     \<lparr>column_position = length (pending t), color_code = color,
      chars = drop (length (scrolled t) - (BUFFER_HEIGHT - 1)) (scrolled t) @ [bottom_row t]\<rparr>"

text \<open>The display controller: port 0x3D4 selects a register, port 0x3D5 writes it; the registers
  0x0E and 0x0F hold the two bytes of the cursor position.\<close>

type_synonym crtc = "u8 \<times> (u8 \<Rightarrow> u8)"

definition crtc_write :: "port_op \<Rightarrow> crtc \<Rightarrow> crtc" where
  "crtc_write w c =
     (if out_port w = 0x3D4 then (out_value w, snd c)
      else if out_port w = 0x3D5 then (fst c, (snd c)(fst c := out_value w))
      else c)"

definition cursor_position :: "crtc \<Rightarrow> nat" where
  "cursor_position c = unat (snd c 0x0E) * 256 + unat (snd c 0x0F)"

section \<open>Loops as list operations\<close>

lemma fold_update_upt:
  "n \<le> length xs \<Longrightarrow> fold (\<lambda>c r. r[c := f c]) [0..<n] xs = map f [0..<n] @ drop n xs"
proof (induction n)
  case (Suc n)
  then have "drop n xs = xs ! n # drop (Suc n) xs" by (simp add: Cons_nth_drop_Suc)
  with Suc show ?case by (simp add: list_update_append)
qed simp

lemma fill_cells_fold:
  "r < length b \<Longrightarrow> \<forall>c \<in> set cs. c < length (b ! r) \<Longrightarrow>
   fill_cells x r cs b = Ret (b[r := fold (\<lambda>c l. l[c := x]) cs (b ! r)])"
  by (induction cs arbitrary: b) (simp_all add: cell_write_def)

lemma copy_cells_fold:
  "0 < r \<Longrightarrow> r < length b \<Longrightarrow> \<forall>c \<in> set cs. c < length (b ! r) \<and> c < length (b ! (r - 1)) \<Longrightarrow>
   copy_cells r cs b = Ret (b[r - 1 := fold (\<lambda>c l. l[c := b ! r ! c]) cs (b ! (r - 1))])"
  by (induction cs arbitrary: b) (simp_all add: cell_write_def cell_read_def)

definition buffer_ok :: "buffer \<Rightarrow> bool" where
  "buffer_ok b \<longleftrightarrow> length b = BUFFER_HEIGHT \<and> (\<forall>r \<in> set b. length r = BUFFER_WIDTH)"

lemma buffer_ok_row: "buffer_ok b \<Longrightarrow> r < BUFFER_HEIGHT \<Longrightarrow> length (b ! r) = BUFFER_WIDTH"
  by (simp add: buffer_ok_def)

lemma buffer_ok_update: "buffer_ok b \<Longrightarrow> length l = BUFFER_WIDTH \<Longrightarrow> buffer_ok (b[r := l])"
  using set_update_subset_insert [of b r l] by (auto simp: buffer_ok_def)

lemma copy_cells_row:
  assumes "buffer_ok b" "0 < r" "r < BUFFER_HEIGHT"
  shows "copy_cells r [0..<BUFFER_WIDTH] b = Ret (b[r - 1 := b ! r])"
proof -
  have l: "length (b ! r) = BUFFER_WIDTH" "length (b ! (r - 1)) = BUFFER_WIDTH" "r < length b"
    using assms buffer_ok_row by (auto simp: buffer_ok_def)
  have "fold (\<lambda>c l. l[c := b ! r ! c]) [0..<BUFFER_WIDTH] (b ! (r - 1)) = map (\<lambda>c. b ! r ! c) [0..<BUFFER_WIDTH]"
    using fold_update_upt [of BUFFER_WIDTH "b ! (r - 1)" "\<lambda>c. b ! r ! c"] l by simp
  also have "\<dots> = b ! r" using l map_nth [of "b ! r"] by simp
  finally show ?thesis using assms(2) l by (simp add: copy_cells_fold)
qed

lemma fill_row:
  assumes "buffer_ok b" "r < BUFFER_HEIGHT"
  shows "fill_cells x r [0..<BUFFER_WIDTH] b = Ret (b[r := replicate BUFFER_WIDTH x])"
proof -
  have l: "length (b ! r) = BUFFER_WIDTH" "r < length b"
    using assms buffer_ok_row by (auto simp: buffer_ok_def)
  then have "fold (\<lambda>c l. l[c := x]) [0..<BUFFER_WIDTH] (b ! r) = replicate BUFFER_WIDTH x"
    using fold_update_upt [of BUFFER_WIDTH "b ! r" "\<lambda>_. x"] by (simp add: map_replicate_const)
  then show ?thesis using l by (simp add: fill_cells_fold)
qed

lemma scroll_rows_from:
  "buffer_ok b \<Longrightarrow> 0 < k \<Longrightarrow> k \<le> BUFFER_HEIGHT \<Longrightarrow>
   scroll_rows [k..<BUFFER_HEIGHT] b = Ret (take (k - 1) b @ drop k b @ drop (BUFFER_HEIGHT - 1) b)"
proof (induction "BUFFER_HEIGHT - k" arbitrary: k b)
  case 0
  then show ?case by (simp add: buffer_ok_def)
next
  case (Suc n)
  then have k: "k < BUFFER_HEIGHT" by simp
  let ?b = "b[k - 1 := b ! k]"
  have len: "length b = BUFFER_HEIGHT" using Suc.prems by (simp add: buffer_ok_def)
  have ok: "buffer_ok ?b" using Suc.prems k buffer_ok_row buffer_ok_update by blast
  have "scroll_rows [k..<BUFFER_HEIGHT] b = scroll_rows [Suc k..<BUFFER_HEIGHT] ?b"
    using k Suc.prems by (simp add: upt_conv_Cons copy_cells_row)
  also have "\<dots> = Ret (take k ?b @ drop (Suc k) ?b @ drop (BUFFER_HEIGHT - 1) ?b)"
    using Suc.hyps(1) [of "Suc k" ?b] Suc.hyps(2) ok k by simp
  also have "take k ?b = take (k - 1) b @ [b ! k]"
    using Suc.prems k len take_Suc_conv_app_nth [of "k - 1" ?b] by simp
  finally show ?case
    using Suc.prems k len Cons_nth_drop_Suc [of k b] by (simp add: drop_update_cancel)
qed

section \<open>The screen refines the terminal\<close>

lemma screen_buffer_ok: "term_ok t \<Longrightarrow> buffer_ok (chars (screen_of color t))"
  by (auto simp: term_ok_def buffer_ok_def screen_of_def bottom_row_def BUFFER_HEIGHT_def dest: in_set_dropD)

lemma term_ok_newline: "term_ok t \<Longrightarrow> term_ok (term_newline color t)"
  by (auto simp: term_ok_def term_newline_def bottom_row_def blank_row_def)

lemma last_row: "0 < BUFFER_HEIGHT" "BUFFER_HEIGHT - 1 < BUFFER_HEIGHT"
  by (simp_all add: BUFFER_HEIGHT_def)

lemma new_line_rows:
  assumes "buffer_ok (chars w)"
  shows "new_line w = Ret (w\<lparr>column_position := 0, chars := tl (chars w) @ [blank_row (color_code w)]\<rparr>)"
proof -
  let ?b = "tl (chars w) @ drop (BUFFER_HEIGHT - 1) (chars w)"
  have len: "length (chars w) = BUFFER_HEIGHT" using assms by (simp add: buffer_ok_def)
  have scroll: "scroll_rows [1..<BUFFER_HEIGHT] (chars w) = Ret ?b"
    using scroll_rows_from [OF assms, of 1] last_row(1) by (simp add: drop_Suc)
  have "chars w \<noteq> []" using len last_row(1) by auto
  then have "set ?b \<subseteq> set (chars w)"
    by (auto dest: in_set_dropD intro: list.set_sel(2))
  moreover have "length ?b = BUFFER_HEIGHT" using len last_row by simp
  ultimately have ok: "buffer_ok ?b" using assms by (auto simp: buffer_ok_def)
  have "drop (BUFFER_HEIGHT - 1) (chars w) = [chars w ! (BUFFER_HEIGHT - 1)]"
    using len last_row Cons_nth_drop_Suc [of "BUFFER_HEIGHT - 1" "chars w"] by simp
  then have "?b[BUFFER_HEIGHT - 1 := x] = tl (chars w) @ [x]" for x
    using len by (simp add: list_update_append)
  then show ?thesis
    unfolding new_line_def scroll clear_row_def rbind_Inr
    using fill_row [OF ok last_row(2)] by (simp add: blank_row_def)
qed

lemma new_line_refines:
  assumes "term_ok t"
  shows "new_line (screen_of color t) = Ret (screen_of color (term_newline color t))"
proof -
  have n: "24 \<le> length (scrolled t)" using assms by (simp add: term_ok_def BUFFER_HEIGHT_def)
  then have k: "length (scrolled t) - 23 = Suc (length (scrolled t) - 24)" by simp
  have "tl (drop (length (scrolled t) - 24) (scrolled t) @ [bottom_row t]) =
      drop (Suc (length (scrolled t)) - 24) (scrolled t @ [bottom_row t])"
    using n by (simp add: tl_append2 k drop_Suc tl_drop)
  then show ?thesis
    using new_line_rows [OF screen_buffer_ok [OF assms]] n
    by (simp add: screen_of_def term_newline_def bottom_row_def BUFFER_HEIGHT_def blank_row_def)
qed

lemma bottom_write:
  assumes "term_ok t" "c < BUFFER_WIDTH"
  shows "cell_write (BUFFER_HEIGHT - 1) c x (chars (screen_of color t)) =
    Ret (drop (length (scrolled t) - (BUFFER_HEIGHT - 1)) (scrolled t) @ [(bottom_row t)[c := x]])"
  using assms
  by (auto simp: cell_write_def screen_of_def term_ok_def bottom_row_def list_update_append nth_append
      BUFFER_HEIGHT_def)

lemma put_refines:
  assumes "term_ok t" "byte \<noteq> newline"
  shows "vga_write_byte byte (screen_of color t) = Ret (screen_of color (term_put color byte t))"
    and "term_ok (term_put color byte t)"
proof -
  define t1 where "t1 = (if length (pending t) = BUFFER_WIDTH then term_newline color t else t)"
  have t1: "term_ok t1" "length (pending t1) < BUFFER_WIDTH"
    using assms term_ok_newline by (auto simp: t1_def term_ok_def term_newline_def BUFFER_WIDTH_def)
  then have "drop (length (pending t1)) (background t1) =
      background t1 ! length (pending t1) # drop (Suc (length (pending t1))) (background t1)"
    by (simp add: Cons_nth_drop_Suc term_ok_def)
  then have "(bottom_row t1)[length (pending t1) := x] =
      pending t1 @ x # drop (Suc (length (pending t1))) (background t1)" for x
    by (simp add: bottom_row_def list_update_append)
  moreover have "(if column_position (screen_of color t) \<ge> BUFFER_WIDTH
      then new_line (screen_of color t) else Ret (screen_of color t)) = Ret (screen_of color t1)"
    using assms new_line_refines by (auto simp: t1_def screen_of_def term_ok_def)
  ultimately show "vga_write_byte byte (screen_of color t) = Ret (screen_of color (term_put color byte t))"
    using bottom_write [OF t1] assms(2)
    by (simp add: vga_write_byte_def term_put_def t1_def [symmetric] del: One_nat_def)
      (simp add: screen_of_def bottom_row_def)
  show "term_ok (term_put color byte t)"
    using t1 by (simp add: term_put_def t1_def [symmetric] term_ok_def)
qed

lemma erase_refines:
  assumes "term_ok t"
  shows "backspace (screen_of color t) = Ret (screen_of color (term_erase color t))"
    and "term_ok (term_erase color t)"
proof -
  show "backspace (screen_of color t) = Ret (screen_of color (term_erase color t))"
  proof (cases "pending t" rule: rev_cases)
    case (snoc cs c)
    then have c: "length cs < BUFFER_WIDTH" using assms by (simp add: term_ok_def)
    have "length (background t) = BUFFER_WIDTH" using assms by (simp add: term_ok_def)
    then have "drop (length cs) ((background t)[length cs := x]) = x # drop (Suc (length cs)) (background t)" for x
      using c by (simp add: drop_update_swap Cons_nth_drop_Suc [symmetric])
    then show ?thesis
      using bottom_write [OF assms c] snoc
      by (simp add: backspace_def term_erase_def) (simp add: screen_of_def bottom_row_def list_update_append Let_def)
  qed (simp add: backspace_def term_erase_def screen_of_def)
  show "term_ok (term_erase color t)" using assms by (auto simp: term_erase_def term_ok_def)
qed

lemma byte_refines:
  assumes "term_ok t"
  shows "write_string_byte byte (screen_of color t) = Ret (screen_of color (term_byte color byte t))"
    and "term_ok (term_byte color byte t)"
proof -
  have nl: "vga_write_byte newline (screen_of color t) = Ret (screen_of color (term_newline color t))"
    using new_line_refines [OF assms] by (simp add: vga_write_byte_def)
  show "write_string_byte byte (screen_of color t) = Ret (screen_of color (term_byte color byte t))"
    unfolding write_string_byte_def term_byte_def
    using nl erase_refines(1) [OF assms] put_refines(1) [OF assms] by (auto simp del: of_char_eq_iff)
  show "term_ok (term_byte color byte t)"
    using term_ok_newline [OF assms] erase_refines(2) [OF assms] put_refines(2) [OF assms]
    by (auto simp: term_byte_def)
qed

lemma write_bytes_refines:
  assumes "term_ok t"
  shows "write_bytes s (screen_of color t) = Ret (screen_of color (term_write color s t))"
    and "term_ok (term_write color s t)"
  using assms by (induction s arbitrary: t) (simp_all add: term_write_def byte_refines)

definition writer_wf :: "writer \<Rightarrow> bool" where
  "writer_wf w \<longleftrightarrow> buffer_ok (chars w) \<and> column_position w \<le> BUFFER_WIDTH"

text \<open>The terminal a screen shows, with nothing above the top row.\<close>

definition terminal_of :: "writer \<Rightarrow> terminal" where
  "terminal_of w =
     \<lparr>scrolled = butlast (chars w), pending = take (column_position w) (last (chars w)),
      background = last (chars w)\<rparr>"

lemma terminal_of_ok:
  assumes "writer_wf w"
  shows "term_ok (terminal_of w)" "screen_of (color_code w) (terminal_of w) = w"
proof -
  have "chars w \<noteq> []" using assms by (auto simp: writer_wf_def buffer_ok_def BUFFER_HEIGHT_def)
  then obtain rs r where b: "chars w = rs @ [r]" using rev_exhaust by blast
  then show "term_ok (terminal_of w)" "screen_of (color_code w) (terminal_of w) = w"
    using assms
    by (auto simp: writer_wf_def buffer_ok_def term_ok_def terminal_of_def screen_of_def bottom_row_def)
qed

lemma screen_wf: "term_ok t \<Longrightarrow> writer_wf (screen_of color t)"
  using screen_buffer_ok [of t color] by (simp add: writer_wf_def) (simp add: screen_of_def term_ok_def)

lemma cursor_ports:
  assumes "column_position w \<le> BUFFER_WIDTH"
  shows "cursor_position (fold crtc_write (update_cursor w) c) = 24 * 80 + column_position w"
proof -
  define n where "n = 24 * 80 + column_position w"
  have n: "n < 65536" using assms by (simp add: n_def BUFFER_WIDTH_def)
  have hi: "unat (ucast (drop_bit 8 (of_nat n :: u16)) :: u8) = n div 256"
    using n by (simp add: unsigned_ucast_eq unsigned_drop_bit_eq unsigned_of_nat take_bit_nat_eq_self
        drop_bit_eq_div take_bit_eq_mod unat_div)
  have lo: "unat (ucast ((of_nat n :: u16) AND 0xFF) :: u8) = n mod 256"
  proof -
    have "m AND 0xFF = m mod 256" for m :: nat
      using take_bit_eq_mask [of 8 m] by (simp add: mask_eq_exp_minus_1 take_bit_eq_mod)
    then show ?thesis
      using n by (simp add: unsigned_ucast_eq unsigned_and_eq unsigned_of_nat take_bit_nat_eq_self
          take_bit_eq_mod)
  qed
  show ?thesis
    using hi lo
    by (simp add: cursor_position_def crtc_write_def update_cursor_def Let_def BUFFER_HEIGHT_def BUFFER_WIDTH_def
        n_def del: of_nat_add)
qed

section \<open>Printing text and erasing it\<close>

abbreviation erase :: char where
  "erase \<equiv> CHR 0x08"

definition cell :: "u8 \<Rightarrow> char \<Rightarrow> screen_char" where
  "cell color c = \<lparr>ascii_character = c, char_color = color\<rparr>"

definition text_char :: "char \<Rightarrow> bool" where
  "text_char c \<longleftrightarrow> 32 \<le> (of_char c :: nat) \<and> (of_char c :: nat) \<le> 126"

lemma term_byte_text:
  assumes "text_char c"
  shows "term_byte color c t = term_put color c t"
proof -
  have "c \<noteq> erase" "c \<noteq> newline" using assms by (auto simp: text_char_def)
  then show ?thesis using assms by (simp add: term_byte_def text_char_def)
qed

lemma term_write_append: "term_write color (s @ s') t = term_write color s' (term_write color s t)"
  by (simp add: term_write_def)

lemma term_write_text:
  "list_all text_char s \<Longrightarrow> length (pending t) + length s \<le> BUFFER_WIDTH \<Longrightarrow>
   term_write color s t = t\<lparr>pending := pending t @ map (cell color) s\<rparr>"
  by (induction s arbitrary: t) (simp_all add: term_write_def term_byte_text term_put_def cell_def)

lemma term_write_erase:
  "background t = blank_row color \<Longrightarrow> length (pending t) \<le> BUFFER_WIDTH \<Longrightarrow>
   term_write color (replicate n erase) t = t\<lparr>pending := take (length (pending t) - n) (pending t)\<rparr>"
proof (induction n arbitrary: t)
  case (Suc n)
  have "(background t)[length (pending t) - 1 := blank_cell color] = background t" if "pending t \<noteq> []"
  proof -
    have "length (pending t) - 1 < BUFFER_WIDTH" using that Suc.prems(2) by (cases "pending t") auto
    then show ?thesis using Suc.prems(1) by (simp add: blank_row_def list_update_same_conv)
  qed
  then have "term_byte color erase t = t\<lparr>pending := butlast (pending t)\<rparr>"
    by (cases "pending t = []") (simp_all add: term_byte_def term_erase_def)
  then show ?case
    using Suc by (simp add: term_write_def butlast_conv_take min_def)
qed (simp add: term_write_def)

lemma vga_print_refines:
  "term_ok t \<Longrightarrow>
   \<exists>ops. vga_print pieces (screen_of color t) = Ret (screen_of color (term_write color (concat pieces) t), ops)"
proof (induction pieces arbitrary: t)
  case Nil
  then show ?case by (simp add: term_write_def)
next
  case (Cons p ps)
  then show ?case
    using Cons.IH [OF write_bytes_refines(2) [OF Cons.prems, of color p]]
      write_bytes_refines(1) [OF Cons.prems, of p color]
    by (auto simp: write_string_def term_write_append)
qed

section \<open>Properties\<close>

text \<open>C37: the 25 rows are a window on the terminal. On every well-formed writer, whatever the
  text, \<^verbatim>\<open>write_string\<close> never indexes outside the buffer, leaves the screen that shows the last
  25 rows of the terminal after the text, and puts the hardware cursor behind the last cell
  written on the bottom row.\<close>

theorem write_string_refines_terminal:
  fixes w :: writer and s :: string
  assumes "writer_wf w"
  defines "t \<equiv> term_write (color_code w) s (terminal_of w)"
  shows "\<exists>ops. write_string s w = Ret (screen_of (color_code w) t, ops) \<and>
     cursor_position (fold crtc_write ops crtc) = 24 * 80 + length (pending t) \<and> writer_wf (screen_of (color_code w) t)"
proof -
  have "write_bytes s w = Ret (screen_of (color_code w) t)" "term_ok t"
    using write_bytes_refines(1) [OF terminal_of_ok(1) [OF assms(1)], of s "color_code w"]
      write_bytes_refines(2) [OF terminal_of_ok(1) [OF assms(1)], of "color_code w" s]
      terminal_of_ok(2) [OF assms(1)] by (simp_all add: t_def)
  moreover have "column_position (screen_of (color_code w) t) = length (pending t)"
    by (simp add: screen_of_def)
  ultimately show ?thesis
    using cursor_ports [of "screen_of (color_code w) t" crtc]
    by (simp add: write_string_def screen_wf) (simp add: term_ok_def)
qed

definition blank_screen :: writer where
  "blank_screen = WRITER (replicate BUFFER_HEIGHT (blank_row (color_code_new LightGreen Black)))"

lemma blank_screen_wf: "writer_wf blank_screen"
  by (auto simp: blank_screen_def WRITER_def writer_wf_def buffer_ok_def blank_row_def)

lemma blank_screen_last: "last (chars blank_screen) = blank_row (color_code blank_screen)"
  by (simp add: blank_screen_def WRITER_def last_replicate BUFFER_HEIGHT_def)

theorem write_string_refines_terminal_witness:
  "writer_wf blank_screen \<and>
   (\<exists>w ops. write_string ''login: '' blank_screen = Ret (w, ops) \<and> writer_wf w)"
  using write_string_refines_terminal [OF blank_screen_wf, of "''login: ''"] blank_screen_wf by blast

text \<open>Printing a line of at most 80 printable characters on an empty bottom row moves the
  screen up by one row, shows exactly the line, padded with blanks, on the row above the bottom,
  and leaves an empty bottom row, however the line is cut into pieces.\<close>

lemma println_shows_line:
  assumes "writer_wf w" "column_position w = 0" "last (chars w) = blank_row (color_code w)"
    and "list_all text_char (concat pieces)" "length (concat pieces) \<le> BUFFER_WIDTH"
  shows "\<exists>ops. vga_print (pieces @ [[newline]]) w = Ret (w\<lparr>chars := tl (butlast (chars w)) @
      [map (cell (color_code w)) (concat pieces) @
         replicate (BUFFER_WIDTH - length (concat pieces)) (blank_cell (color_code w)),
       blank_row (color_code w)]\<rparr>, ops)"
proof -
  let ?c = "color_code w" and ?s = "concat pieces"
  have t: "terminal_of w = \<lparr>scrolled = butlast (chars w), pending = [], background = blank_row ?c\<rparr>"
    using assms(2,3) by (simp add: terminal_of_def)
  have "term_write ?c (?s @ [newline]) (terminal_of w) =
      term_newline ?c (t\<lparr>pending := map (cell ?c) ?s\<rparr>)" if "t = terminal_of w" for t
    using term_write_text [of ?s t ?c] assms(4,5) that
    by (simp add: t term_write_append) (simp add: term_write_def term_byte_def)
  then have "term_write ?c (?s @ [newline]) (terminal_of w) =
      \<lparr>scrolled = butlast (chars w) @ [map (cell ?c) ?s @ replicate (BUFFER_WIDTH - length ?s) (blank_cell ?c)],
       pending = [], background = blank_row ?c\<rparr>"
    by (simp add: t term_newline_def bottom_row_def blank_row_def)
  moreover have "length (chars w) = 25" using assms(1) by (simp add: writer_wf_def buffer_ok_def BUFFER_HEIGHT_def)
  ultimately have "screen_of ?c (term_write ?c (?s @ [newline]) (terminal_of w)) = w\<lparr>chars := tl (butlast (chars w)) @
      [map (cell ?c) ?s @ replicate (BUFFER_WIDTH - length ?s) (blank_cell ?c), blank_row ?c]\<rparr>"
    using assms(2) by (simp add: screen_of_def bottom_row_def BUFFER_HEIGHT_def drop_Suc)
  then show ?thesis
    using vga_print_refines [OF terminal_of_ok(1) [OF assms(1)], of "pieces @ [[newline]]" ?c]
      terminal_of_ok(2) [OF assms(1)] by simp
qed

text \<open>C40: backspace does not cross a wrapped line. A text of 80 characters and up to 80 more is
  shown on two rows; erasing it with one backspace per character empties only the bottom row, and
  the first 80 characters stay on the screen.\<close>

theorem wrapped_text_cannot_be_erased:
  assumes "term_ok t" "pending t = []" "background t = blank_row color"
    and "list_all text_char (s @ s')" "length s = BUFFER_WIDTH" "s' \<noteq> []" "length s' \<le> BUFFER_WIDTH"
  shows "write_bytes (s @ s' @ replicate (length (s @ s')) erase) (screen_of color t) =
     Ret (screen_of color \<lparr>scrolled = scrolled t @ [map (cell color) s], pending = [],
                           background = blank_row color\<rparr>)"
proof -
  obtain c r where s': "s' = c # r" using assms(6) by (cases s') auto
  let ?t1 = "t\<lparr>pending := map (cell color) s\<rparr>"
  have w1: "term_write color s t = ?t1" using term_write_text [of s t color] assms by simp
  have nl: "term_newline color ?t1 =
      \<lparr>scrolled = scrolled t @ [map (cell color) s], pending = [], background = blank_row color\<rparr>"
    using assms(1,5) by (simp add: term_newline_def bottom_row_def term_ok_def)
  have "term_write color s' ?t1 = term_write color s' (term_newline color ?t1)"
    using assms(4,5) by (simp add: s' term_write_def term_byte_text term_put_def term_newline_def BUFFER_WIDTH_def)
  then have "term_write color (s @ s') t =
      (term_newline color ?t1)\<lparr>pending := map (cell color) s'\<rparr>"
    using term_write_text [of s' "term_newline color ?t1" color] assms(4,7) by (simp add: term_write_append w1 nl)
  then have "term_write color (s @ s' @ replicate (length (s @ s')) erase) t = term_newline color ?t1"
    using term_write_erase [of "(term_newline color ?t1)\<lparr>pending := map (cell color) s'\<rparr>" color "length (s @ s')"]
      assms(7) by (simp add: term_write_append [of color "s @ s'", simplified] nl)
  then show ?thesis using write_bytes_refines(1) [OF assms(1)] nl by simp
qed

theorem wrapped_text_cannot_be_erased_witness:
  "write_bytes (replicate 80 CHR ''x'' @ ''y'' @ replicate 81 erase) blank_screen =
     Ret (screen_of (color_code blank_screen)
       \<lparr>scrolled = scrolled (terminal_of blank_screen) @ [map (cell (color_code blank_screen)) (replicate 80 CHR ''x'')],
        pending = [], background = blank_row (color_code blank_screen)\<rparr>)"
proof -
  let ?t = "terminal_of blank_screen"
  have "pending ?t = []" "background ?t = blank_row (color_code blank_screen)"
    using blank_screen_last by (simp_all add: terminal_of_def blank_screen_def WRITER_def)
  then show ?thesis
    using wrapped_text_cannot_be_erased [OF terminal_of_ok(1) [OF blank_screen_wf],
        of "color_code blank_screen" "replicate 80 CHR ''x''" "''y''"]
      terminal_of_ok(2) [OF blank_screen_wf]
    by (simp add: text_char_def BUFFER_WIDTH_def list_all_iff)
qed

text \<open>Clearing the screen fills every cell with a blank and returns to the left edge.\<close>

lemma clear_rows_blank:
  "buffer_ok (chars w) \<Longrightarrow> n \<le> BUFFER_HEIGHT \<Longrightarrow>
   clear_rows [BUFFER_HEIGHT - n..<BUFFER_HEIGHT] w =
     Ret (w\<lparr>chars := take (BUFFER_HEIGHT - n) (chars w) @ replicate n (blank_row (color_code w))\<rparr>)"
proof (induction n arbitrary: w)
  case 0
  then show ?case by (simp add: buffer_ok_def)
next
  case (Suc n)
  let ?k = "BUFFER_HEIGHT - Suc n" and ?r = "blank_row (color_code w)"
  have k: "?k < BUFFER_HEIGHT" "Suc ?k = BUFFER_HEIGHT - n" using Suc.prems(2) by auto
  let ?w = "w\<lparr>chars := (chars w)[?k := ?r]\<rparr>"
  have "clear_row ?k w = Ret ?w" using fill_row [OF Suc.prems(1) k(1)] by (simp add: clear_row_def blank_row_def)
  then have "clear_rows [?k..<BUFFER_HEIGHT] w = clear_rows [BUFFER_HEIGHT - n..<BUFFER_HEIGHT] ?w"
    using k by (simp add: upt_conv_Cons)
  moreover have "buffer_ok (chars ?w)"
    using buffer_ok_update [OF Suc.prems(1)] by (simp add: blank_row_def)
  moreover have "take (BUFFER_HEIGHT - n) (chars ?w) = take ?k (chars w) @ [?r]"
  proof -
    have "length (chars w) = BUFFER_HEIGHT" using Suc.prems(1) by (simp add: buffer_ok_def)
    then show ?thesis using k take_Suc_conv_app_nth [of ?k "chars ?w"] by simp
  qed
  ultimately show ?case using Suc.IH [of ?w] Suc.prems(2) by simp
qed

lemma clear_screen_blank:
  assumes "writer_wf w"
  shows "clear_screen w = Ret (w\<lparr>column_position := 0, chars := replicate BUFFER_HEIGHT (blank_row (color_code w))\<rparr>,
    update_cursor (w\<lparr>column_position := 0\<rparr>))"
  using clear_rows_blank [of w BUFFER_HEIGHT] assms
  by (simp add: clear_screen_def writer_wf_def Let_def update_cursor_def)

end
