(* ===== verification/Block_Source.thy ===== *)
theory Block_Source
  imports Enos_Prelude
begin

text \<open>
  The contract the two bump allocators share: a source hands out blocks of addresses and never
  takes one back. \<open>free\<close> is the set of addresses it may still hand out. A block comes from the
  free addresses and leaves them, so the blocks of any sequence of requests are pairwise
  disjoint.
\<close>

fun pairwise_disjoint :: "'a set list \<Rightarrow> bool" where
  "pairwise_disjoint [] = True"
| "pairwise_disjoint (b # bs) = ((\<forall>b' \<in> set bs. b \<inter> b' = {}) \<and> pairwise_disjoint bs)"

text \<open>The blocks of a sequence of requests; a failed request adds none.\<close>

fun blocks_of :: "('r \<Rightarrow> 's \<Rightarrow> nat set option \<times> 's) \<Rightarrow> 'r list \<Rightarrow> 's \<Rightarrow> nat set list" where
  "blocks_of alloc [] s = []"
| "blocks_of alloc (r # rs) s =
     (case alloc r s of
        (None, s') \<Rightarrow> blocks_of alloc rs s'
      | (Some b, s') \<Rightarrow> b # blocks_of alloc rs s')"

locale block_source =
  fixes alloc :: "'r \<Rightarrow> 's \<Rightarrow> nat set option \<times> 's"
    and free :: "'s \<Rightarrow> nat set"
    and wf :: "'s \<Rightarrow> bool"
  assumes takes: "wf s \<Longrightarrow> alloc r s = (Some b, s') \<Longrightarrow> b \<subseteq> free s \<and> free s' \<subseteq> free s - b"
    and fails: "wf s \<Longrightarrow> alloc r s = (None, s') \<Longrightarrow> free s' \<subseteq> free s"
    and keeps: "wf s \<Longrightarrow> wf (snd (alloc r s))"
begin

lemma blocks_free_disjoint:
  "wf s \<Longrightarrow> (\<forall>b \<in> set (blocks_of alloc rs s). b \<subseteq> free s) \<and> pairwise_disjoint (blocks_of alloc rs s)"
proof (induction rs arbitrary: s)
  case (Cons r rs)
  obtain ob s' where a: "alloc r s = (ob, s')" by (cases "alloc r s")
  have wf': "wf s'" using keeps [OF Cons.prems, of r] a by simp
  show ?case
  proof (cases ob)
    case None
    then show ?thesis using Cons.IH [OF wf'] fails [OF Cons.prems, of r s'] a by fastforce
  next
    case (Some b)
    then have "b \<subseteq> free s" "free s' \<subseteq> free s - b" using takes [OF Cons.prems, of r b s'] a by auto
    then show ?thesis using Cons.IH [OF wf'] a Some by fastforce
  qed
qed simp

end

end
