(* ===== verification/Heap_Allocator.thy ===== *)
theory Heap_Allocator
  imports Block_Source Text_Fmt
begin

text \<open>
  The kernel heap of \<^verbatim>\<open>src/src/allocator.rs\<close>: a bump allocator over a static array of
  1 MiB. The address of the array is an argument, aligned to a page as its type demands. The
  arithmetic is 32-bit with an overflow check on every plain operation, as in the debug build;
  \<open>None\<close> is the null pointer. The handler of a failed allocation is that of
  \<^verbatim>\<open>src/src/main.rs\<close>.
\<close>

definition HEAP_SIZE :: usize where "HEAP_SIZE = 1024 * 1024"

record layout =
  lay_size :: usize
  lay_align :: usize

record heap_stats =
  used_bytes :: usize
  free_bytes :: usize
  heap_total_bytes :: usize
  used_percent :: usize

definition heap_alloc :: "usize \<Rightarrow> layout \<Rightarrow> usize \<Rightarrow> (usize option \<times> usize) run" where
  "heap_alloc heap_base layout offset =
     rbind (add_ov heap_base offset) (\<lambda>alloc_start.
     let align = lay_align layout; remainder = alloc_start mod align in
     rbind (if remainder = 0 then Ret alloc_start
            else rbind (add_ov alloc_start align) (\<lambda>x. sub_ov x remainder)) (\<lambda>start_addr.
     case checked_add start_addr (lay_size layout) of
       None \<Rightarrow> Ret (None, offset)
     | Some end_addr \<Rightarrow>
         rbind (add_ov heap_base HEAP_SIZE) (\<lambda>heap_end.
         if end_addr > heap_end then Ret (None, offset)
         else rbind (sub_ov end_addr heap_base) (\<lambda>new_offset. Ret (Some start_addr, new_offset)))))"

definition heap_dealloc :: "usize \<Rightarrow> layout \<Rightarrow> usize \<Rightarrow> usize" where
  "heap_dealloc ptr layout offset = offset"

definition heap_stats_of :: "usize \<Rightarrow> heap_stats" where
  "heap_stats_of used =
     (let clamped_used = min used HEAP_SIZE in
      \<lparr>used_bytes = clamped_used, free_bytes = saturating_sub HEAP_SIZE clamped_used,
       heap_total_bytes = HEAP_SIZE,
       used_percent = (if HEAP_SIZE = 0 then 0 else saturating_mul clamped_used 100 div HEAP_SIZE)\<rparr>)"

text \<open>Running out of memory is a panic. The message has the request in the format that the core
  library derives for \<^verbatim>\<open>Layout\<close>, with the alignment also as a power of two.\<close>

fun log2_nat :: "nat \<Rightarrow> nat" where
  "log2_nat n = (if n < 2 then 0 else Suc (log2_nat (n div 2)))"

declare log2_nat.simps [simp del]

definition debug_layout :: "layout \<Rightarrow> string" where
  "debug_layout l =
     ''Layout { size: '' @ show_word (lay_size l) @ '', align: '' @ show_word (lay_align l) @
     '' (1 << '' @ show_nat (log2_nat (unat (lay_align l))) @ '') }''"

definition alloc_error_handler :: "layout \<Rightarrow> panic" where
  "alloc_error_handler layout = ExplicitPanic (''Out of Memory Exception: '' @ debug_layout layout)"

text \<open>
  A sequence of requests that code with strings and vectors makes: each takes its block from the
  heap, and the first that gets the null pointer ends in the error handler. Which requests a
  string or a vector makes, and when it grows, is up to the library that implements them, so the
  sequence is an argument.
\<close>

fun serve :: "usize \<Rightarrow> layout list \<Rightarrow> usize \<Rightarrow> usize run" where
  "serve heap_base [] offset = Ret offset"
| "serve heap_base (l # ls) offset =
     rbind (heap_alloc heap_base l offset) (\<lambda>(ptr, offset').
     case ptr of
       None \<Rightarrow> Panic (alloc_error_handler l)
     | Some _ \<Rightarrow> serve heap_base ls offset')"

section \<open>What the callers and the linker guarantee\<close>

text \<open>\<^verbatim>\<open>Layout\<close> promises a power of two that fits \<^verbatim>\<open>isize\<close> as alignment, so the
  remainder is never taken by zero; the kernel is linked at one megabyte, so the heap array lies
  far from the end of the address space.\<close>

definition layout_ok :: "layout \<Rightarrow> bool" where
  "layout_ok l \<longleftrightarrow> (\<exists>k \<in> {..30}. unat (lay_align l) = 2 ^ k)"

definition base_ok :: "usize \<Rightarrow> bool" where
  "base_ok b \<longleftrightarrow> unat b + 2 ^ 20 \<le> 2 ^ 30"

definition heap_wf :: "usize \<Rightarrow> bool" where
  "heap_wf offset \<longleftrightarrow> unat offset \<le> 2 ^ 20"

lemma unat_HEAP_SIZE [simp]: "unat HEAP_SIZE = 2 ^ 20"
  by (simp add: HEAP_SIZE_def)

definition align_up_nat :: "nat \<Rightarrow> nat \<Rightarrow> nat" where
  "align_up_nat a x = (if x mod a = 0 then x else x + a - x mod a)"

lemma align_up_nat:
  assumes "0 < a"
  shows "x \<le> align_up_nat a x" "align_up_nat a x < x + a" "a dvd align_up_nat a x"
proof -
  have m: "x mod a < a" using assms by simp
  have "align_up_nat a x = x \<or> align_up_nat a x = x + a - x mod a \<and> 0 < x mod a"
    by (simp add: align_up_nat_def)
  with m assms show "x \<le> align_up_nat a x" "align_up_nat a x < x + a" by linarith+
  have "x + a - x mod a = (x div a + 1) * a"
    by (metis Suc_eq_plus1 add.commute add_diff_cancel_right' div_mod_decomp group_cancel.add1 mult_Suc)
  then show "a dvd align_up_nat a x"
    by (auto simp: align_up_nat_def mod_eq_0_iff_dvd)
qed

lemma align_up_nat_least:
  assumes "0 < a" "a dvd p" "x \<le> p"
  shows "align_up_nat a x \<le> p"
proof (rule ccontr)
  assume "\<not> ?thesis"
  then have lt: "p < align_up_nat a x" by simp
  obtain k m where "p = a * k" "align_up_nat a x = a * m"
    using assms(2) align_up_nat(3) [OF assms(1), of x] by (auto elim!: dvdE)
  with lt have "p + a \<le> align_up_nat a x"
    by (metis Suc_leI mult_Suc_right mult_le_mono2 mult_less_cancel1 add.commute)
  then show False using align_up_nat(2) [OF assms(1), of x] assms(3) by simp
qed

lemma layout_okD: "layout_ok l \<Longrightarrow> 0 < unat (lay_align l) \<and> unat (lay_align l) \<le> 2 ^ 30"
  using power_increasing [of _ 30 "2 :: nat"] by (auto simp: layout_ok_def)

lemma heap_start:
  assumes "base_ok b" "layout_ok l" "heap_wf off"
  obtains s st where "add_ov b off = Inr s"
    "(if s mod lay_align l = 0 then Ret s
      else rbind (add_ov s (lay_align l)) (\<lambda>x. sub_ov x (s mod lay_align l))) = Inr st"
    "unat st = align_up_nat (unat (lay_align l)) (unat b + unat off)" "unat st < 2 ^ 31 + 2 ^ 30"
proof -
  let ?a = "lay_align l"
  have a: "0 < unat ?a" "unat ?a \<le> 2 ^ 30" using layout_okD [OF assms(2)] by auto
  have "unat b + unat off < 2 ^ LENGTH(32)" using assms by (simp add: base_ok_def heap_wf_def)
  then obtain s where s: "add_ov b off = Inr s" "unat s = unat b + unat off" by (rule add_ov_nat)
  have s30: "unat s \<le> 2 ^ 30" using assms s(2) by (simp add: base_ok_def heap_wf_def)
  have m: "unat (s mod ?a) = unat s mod unat ?a" by (rule unat_mod)
  show thesis
  proof (cases "s mod ?a = 0")
    case True
    then have "unat s mod unat ?a = 0" using m by simp
    then show thesis using that [of s s] True s s30 by (simp add: align_up_nat_def)
  next
    case False
    have "unat s + unat ?a < 2 ^ LENGTH(32)" using s30 a by simp
    then obtain x where x: "add_ov s ?a = Inr x" "unat x = unat s + unat ?a" by (rule add_ov_nat)
    have "unat (s mod ?a) \<le> unat x" using m x(2) a by (simp add: mod_le_divisor trans_le_add2)
    then obtain st where st: "sub_ov x (s mod ?a) = Inr st" "unat st = unat x - unat (s mod ?a)"
      by (rule sub_ov_nat)
    have "unat s mod unat ?a \<noteq> 0" using False m by (metis unat_eq_zero)
    then have "unat st = align_up_nat (unat ?a) (unat b + unat off)"
      using st(2) x(2) s(2) m by (simp add: align_up_nat_def)
    moreover have "unat st < 2 ^ 31 + 2 ^ 30" using st(2) x(2) s30 a by simp
    ultimately show thesis using that [of s st] False s x st by simp
  qed
qed

lemma heap_alloc_cases:
  assumes "base_ok b" "layout_ok l" "heap_wf off"
  defines "start \<equiv> align_up_nat (unat (lay_align l)) (unat b + unat off)"
  shows "if start + unat (lay_size l) \<le> unat b + 2 ^ 20
    then (\<exists>p off'. heap_alloc b l off = Ret (Some p, off') \<and> unat p = start \<and>
            unat b + unat off' = start + unat (lay_size l))
    else heap_alloc b l off = Ret (None, off)"
proof -
  obtain s st where st: "add_ov b off = Inr s"
    "(if s mod lay_align l = 0 then Ret s
      else rbind (add_ov s (lay_align l)) (\<lambda>x. sub_ov x (s mod lay_align l))) = Inr st"
    "unat st = start"
    using heap_start [OF assms(1,2,3)] unfolding start_def by metis
  have b: "unat b + 2 ^ 20 \<le> 2 ^ 30" using assms(1) by (simp add: base_ok_def)
  then have "unat b + unat HEAP_SIZE < 2 ^ LENGTH(32)" by simp
  then obtain he where he: "add_ov b HEAP_SIZE = Inr he" "unat he = unat b + 2 ^ 20"
    by (rule add_ov_nat) simp
  have start_b: "unat b \<le> start"
    unfolding start_def using align_up_nat(1) [of "unat (lay_align l)" "unat b + unat off"]
      layout_okD [OF assms(2)] by simp
  show ?thesis
  proof (cases "checked_add st (lay_size l)")
    case None
    then have "unat b + 2 ^ 20 < start + unat (lay_size l)"
      using b st(3) by (simp add: checked_add_None)
    with None st show ?thesis by (simp add: heap_alloc_def Let_def)
  next
    case (Some e)
    then have e: "unat e = start + unat (lay_size l)" using checked_add_unat st(3) by metis
    then have "unat b \<le> unat e" using start_b by simp
    then obtain n where n: "sub_ov e b = Inr n" "unat n = unat e - unat b" by (rule sub_ov_nat)
    show ?thesis
      using Some st he e n start_b
      by (auto simp: heap_alloc_def Let_def word_less_nat_alt not_less)
  qed
qed

section \<open>Sequences of requests\<close>

text \<open>What a sequence takes at least, and what it takes at most with the gaps for alignment.\<close>

definition demand :: "layout list \<Rightarrow> nat" where
  "demand ls = sum_list (map (\<lambda>l. unat (lay_size l) + unat (lay_align l)) ls)"

definition bytes_asked :: "layout list \<Rightarrow> nat" where
  "bytes_asked ls = sum_list (map (\<lambda>l. unat (lay_size l)) ls)"

lemma demand_simps [simp]:
  "demand [] = 0" "demand (l # ls) = unat (lay_size l) + unat (lay_align l) + demand ls"
  "bytes_asked [] = 0" "bytes_asked (l # ls) = unat (lay_size l) + bytes_asked ls"
  by (simp_all add: demand_def bytes_asked_def)

text \<open>Requests are served as long as they fit; the only panic is the one of the error handler, and
  it comes only when they may not fit, and always when they do not.\<close>

lemma serve_cases:
  assumes "base_ok b" "list_all layout_ok ls" "heap_wf off"
  shows "case serve b ls off of
      Inl p \<Rightarrow> (\<exists>l \<in> set ls. p = alloc_error_handler l) \<and> 2 ^ 20 < unat off + demand ls
    | Inr off' \<Rightarrow> heap_wf off' \<and> unat off + bytes_asked ls \<le> unat off' \<and> unat off' \<le> unat off + demand ls"
  using assms(2,3)
proof (induction ls arbitrary: off)
  case (Cons l ls)
  let ?start = "align_up_nat (unat (lay_align l)) (unat b + unat off)"
  have l: "layout_ok l" "list_all layout_ok ls" using Cons.prems(1) by simp_all
  note start = align_up_nat(1,2) [of "unat (lay_align l)" "unat b + unat off"]
  note cases = heap_alloc_cases [OF assms(1) l(1) Cons.prems(2)]
  show ?case
  proof (cases "?start + unat (lay_size l) \<le> unat b + 2 ^ 20")
    case True
    then obtain p off1 where a: "heap_alloc b l off = Ret (Some p, off1)"
      "unat b + unat off1 = ?start + unat (lay_size l)" using cases by auto
    then have "heap_wf off1" using True by (simp add: heap_wf_def)
    from Cons.IH [OF l(2) this] show ?thesis
      using a start layout_okD [OF l(1)] by (auto split: sum.splits)
  next
    case False
    then have "heap_alloc b l off = Ret (None, off)" using cases by simp
    then show ?thesis using False start layout_okD [OF l(1)] by auto
  qed
qed simp

lemma serve_fits:
  assumes "base_ok b" "list_all layout_ok ls" "heap_wf off" "unat off + demand ls \<le> 2 ^ 20"
  obtains off' where "serve b ls off = Ret off'" "heap_wf off'" "unat off' \<le> unat off + demand ls"
  using serve_cases [OF assms(1-3)] assms(4) by (cases "serve b ls off") auto

lemma serve_runs_out:
  assumes "base_ok b" "list_all layout_ok ls" "heap_wf off" "2 ^ 20 < unat off + bytes_asked ls"
  shows "\<exists>l \<in> set ls. serve b ls off = Panic (alloc_error_handler l)"
  using serve_cases [OF assms(1-3)] assms(4) by (cases "serve b ls off") (auto simp: heap_wf_def)

section \<open>The heap is a source of blocks\<close>

text \<open>A request as the interface sees it: the addresses of the block, if there is one.\<close>

fun heap_block :: "layout \<Rightarrow> usize \<times> usize \<Rightarrow> nat set option \<times> (usize \<times> usize)" where
  "heap_block l (b, off) =
     (if \<not> layout_ok l then (None, (b, off))
      else case heap_alloc b l off of
             Inr (Some p, off') \<Rightarrow> (Some {unat p..<unat p + unat (lay_size l)}, (b, off'))
           | Inr (None, off') \<Rightarrow> (None, (b, off'))
           | Inl _ \<Rightarrow> (None, (b, off)))"

fun heap_free :: "usize \<times> usize \<Rightarrow> nat set" where
  "heap_free (b, off) = {unat b + unat off..<unat b + 2 ^ 20}"

fun heap_ok :: "usize \<times> usize \<Rightarrow> bool" where
  "heap_ok (b, off) \<longleftrightarrow> base_ok b \<and> heap_wf off"

lemma heap_block_cases:
  assumes "base_ok b" "heap_wf off" "heap_block l (b, off) = (blk, s')"
  shows "(blk = None \<and> s' = (b, off)) \<or>
    (\<exists>p off'. blk = Some {p..<p + unat (lay_size l)} \<and> s' = (b, off') \<and>
      unat b + unat off \<le> p \<and> p + unat (lay_size l) = unat b + unat off' \<and>
      unat off' \<le> 2 ^ 20 \<and> heap_alloc b l off = Ret (Some (of_nat p), off'))"
proof (cases "layout_ok l")
  case True
  define start where "start = align_up_nat (unat (lay_align l)) (unat b + unat off)"
  have le: "unat b + unat off \<le> start"
    using align_up_nat(1) layout_okD [OF True] by (simp add: start_def)
  show ?thesis
  proof (cases "start + unat (lay_size l) \<le> unat b + 2 ^ 20")
    case fits: True
    then obtain p off' where "heap_alloc b l off = Ret (Some p, off')" "unat p = start"
        "unat b + unat off' = start + unat (lay_size l)"
      using heap_alloc_cases [OF assms(1) True assms(2)] by (auto simp: start_def)
    moreover from this have "p = of_nat start" by auto
    ultimately show ?thesis using assms(3) True le fits by auto
  next
    case False
    then have "heap_alloc b l off = Ret (None, off)"
      using heap_alloc_cases [OF assms(1) True assms(2)] by (simp add: start_def)
    then show ?thesis using assms(3) True by auto
  qed
qed (use assms in auto)

interpretation heap: block_source heap_block heap_free heap_ok
proof
  fix s r blk s'
  assume ok: "heap_ok s" and blk: "heap_block r s = (Some blk, s')"
  obtain b off where s: "s = (b, off)" by (cases s)
  obtain p off' where "blk = {p..<p + unat (lay_size r)}" "s' = (b, off')"
      "unat b + unat off \<le> p" "p + unat (lay_size r) = unat b + unat off'" "unat off' \<le> 2 ^ 20"
    using heap_block_cases [of b off r "Some blk" s'] ok blk s by auto
  then show "blk \<subseteq> heap_free s \<and> heap_free s' \<subseteq> heap_free s - blk"
    by (simp add: s subset_iff)
next
  fix s r s'
  assume ok: "heap_ok s" and blk: "heap_block r s = (None, s')"
  obtain b off where s: "s = (b, off)" by (cases s)
  show "heap_free s' \<subseteq> heap_free s"
    using heap_block_cases [of b off r None s'] ok blk s by auto
next
  fix s r
  assume ok: "heap_ok s"
  obtain b off blk s' where s: "s = (b, off)" "heap_block r s = (blk, s')" by (metis prod.exhaust)
  show "heap_ok (snd (heap_block r s))"
    using heap_block_cases [of b off r blk s'] ok s by (auto simp: heap_wf_def)
qed

section \<open>Properties\<close>

text \<open>An allocation never panics; it returns an aligned block inside the heap, starting at
  or after the current offset and moving the offset to its end, or it returns null, leaves the
  offset alone, and no aligned block of that size is left.\<close>

lemma heap_alloc_contract:
  assumes "base_ok b" and "layout_ok l" and "heap_wf off"
  shows "(\<exists>p off'. heap_alloc b l off = Ret (Some p, off') \<and> unat (lay_align l) dvd unat p \<and>
        unat b + unat off \<le> unat p \<and> unat p + unat (lay_size l) = unat b + unat off' \<and>
        heap_wf off') \<or>
     (heap_alloc b l off = Ret (None, off) \<and>
        (\<forall>p. unat (lay_align l) dvd p \<and> unat b + unat off \<le> p \<longrightarrow>
             unat b + 2 ^ 20 < p + unat (lay_size l)))"
proof -
  define start where "start = align_up_nat (unat (lay_align l)) (unat b + unat off)"
  have al: "0 < unat (lay_align l)" using layout_okD [OF assms(2)] by simp
  show ?thesis
  proof (cases "start + unat (lay_size l) \<le> unat b + 2 ^ 20")
    case True
    then obtain p off' where p: "heap_alloc b l off = Ret (Some p, off')" "unat p = start"
        "unat b + unat off' = start + unat (lay_size l)"
      using heap_alloc_cases [OF assms] by (auto simp: start_def)
    then have "unat (lay_align l) dvd unat p" "unat b + unat off \<le> unat p"
      using align_up_nat [OF al, of "unat b + unat off"] by (simp_all add: start_def)
    with p True show ?thesis by (auto simp: heap_wf_def)
  next
    case False
    then have "heap_alloc b l off = Ret (None, off)"
      using heap_alloc_cases [OF assms] by (simp add: start_def)
    moreover have "start \<le> p" if "unat (lay_align l) dvd p" "unat b + unat off \<le> p" for p
      using align_up_nat_least [OF al that] by (simp add: start_def)
    ultimately show ?thesis using False by fastforce
  qed
qed

text \<open>C28: the blocks returned for any sequence of allocations lie in the heap and are pairwise
  disjoint, so no two live objects of the kernel overlap.\<close>

theorem heap_blocks_disjoint:
  assumes "base_ok b" and "heap_wf off"
  shows "pairwise_disjoint (blocks_of heap_block ls (b, off)) \<and>
     (\<forall>blk \<in> set (blocks_of heap_block ls (b, off)). blk \<subseteq> {unat b + unat off..<unat b + 2 ^ 20})"
  using heap.blocks_free_disjoint [of "(b, off)" ls] assms by simp

theorem heap_blocks_disjoint_witness:
  "pairwise_disjoint
     (blocks_of heap_block [\<lparr>lay_size = 100, lay_align = 8\<rparr>, \<lparr>lay_size = 8, lay_align = 4\<rparr>] (0x200000, 0))"
proof -
  have "base_ok 0x200000" "heap_wf (0 :: usize)" by (simp_all add: base_ok_def heap_wf_def)
  from heap_blocks_disjoint [OF this] show ?thesis by (rule conjunct1)
qed

end
