(* ===== verification/Phys_Memory.thy ===== *)
theory Phys_Memory
  imports Block_Source Heap_Allocator Text_Fmt
begin

text \<open>
  The physical memory of \<^verbatim>\<open>src/src/memory.rs\<close>: the boot loader's memory map and the
  allocator of page frames. The memory that holds the map is the argument \<open>mem\<close>, from an
  address to the entry that starts there; the addresses of the kernel image are the arguments
  \<open>ks\<close> and \<open>ke\<close>. Plain additions panic on overflow.
\<close>

record multiboot_info =
  mb_flags :: u32
  mem_lower :: u32
  mem_upper :: u32
  boot_device :: u32
  cmdline :: u32
  mods_count :: u32
  mods_addr :: u32
  syms :: "u32 list"
  mmap_length :: u32
  mmap_addr :: u32
  drives_length :: u32
  drives_addr :: u32
  config_table :: u32
  boot_loader_name :: u32
  apm_table :: u32
  vbe_control_info :: u32
  vbe_mode_info :: u32
  vbe_mode :: u16
  vbe_interface_seg :: u16
  vbe_interface_off :: u16
  vbe_interface_len :: u16

record memory_map_entry =
  entry_size :: u32
  base_addr_low :: u32
  base_addr_high :: u32
  length_low :: u32
  length_high :: u32
  buffer_type :: u32

definition is_available :: "memory_map_entry \<Rightarrow> bool" where
  "is_available e \<longleftrightarrow> buffer_type e = 1"

definition PAGE_SIZE :: u32 where "PAGE_SIZE = 4096"
definition LOW_MEMORY_RESERVED_END :: u32 where "LOW_MEMORY_RESERVED_END = 0x00100000"

definition has_memory_map :: "multiboot_info \<Rightarrow> bool" where
  "has_memory_map info \<longleftrightarrow> mb_flags info AND push_bit 6 1 \<noteq> 0"

section \<open>Printing the map\<close>

text \<open>Every round moves forward by at least four bytes or panics, so the loop ends.\<close>

lemma advance_decreases:
  fixes pos limit :: u32
  assumes "add_ov sz 4 = Inr d" "add_ov pos d = Inr pos'" "pos < limit"
  shows "unat limit - unat pos' < unat limit - unat pos"
  using assms add_ov_unat [of sz 4 d] add_ov_unat [of pos d pos'] by (simp add: word_less_nat_alt)

function print_entries ::
    "(u32 \<Rightarrow> memory_map_entry) \<Rightarrow> u32 \<Rightarrow> u32 \<Rightarrow> u32 \<Rightarrow> (console_op list \<times> u32) run" where
  "print_entries mem mmap_end mmap total_memory_kb =
     (if \<not> mmap < mmap_end then Ret ([], total_memory_kb)
      else
        let entry = mem mmap;
            line = serial_println (''Base: '' @ fmt_hex8 (base_addr_low entry) @ '', Length: '' @
              fmt_hex8 (length_low entry) @ '', Type: '' @ show_word (buffer_type entry))
        in
        rbind (if is_available entry then add_ov total_memory_kb (length_low entry div 1024)
               else Ret total_memory_kb) (\<lambda>total'.
        rbind (add_ov (entry_size entry) 4) (\<lambda>d.
        rbind (add_ov mmap d) (\<lambda>mmap'.
        rbind (print_entries mem mmap_end mmap' total') (\<lambda>(ops, t). Ret (line # ops, t))))))"
  by pat_completeness auto
termination
  by (relation "measure (\<lambda>(mem, mmap_end, mmap, t). unat mmap_end - unat mmap)")
    (auto intro: advance_decreases)

definition print_memory_map ::
    "(u32 \<Rightarrow> memory_map_entry) \<Rightarrow> multiboot_info \<Rightarrow> console_op list run" where
  "print_memory_map mem info =
     (if has_memory_map info then
        rbind (add_ov (mmap_addr info) (mmap_length info)) (\<lambda>mmap_end.
        rbind (print_entries mem mmap_end (mmap_addr info) 0) (\<lambda>(ops, total_memory_kb).
          let line = ''Total Available RAM: '' @ show_word (total_memory_kb div 1024) @ '' MB'' in
          Ret (serial_println ''Multiboot Memory Map detected!'' # ops @
               [println line, serial_println line])))
      else Ret [println ''Warning: No memory map provided by Grub.'',
                serial_println ''Warning: No memory map provided by Grub.''])"

section \<open>The frame allocator\<close>

record bump_allocator =
  memory_map_addr :: u32
  memory_map_length :: u32
  next_free_frame :: "u32 option"
  current_mmap_offset :: u32

definition bump_new :: "multiboot_info \<Rightarrow> bump_allocator" where
  "bump_new info =
     (if has_memory_map info
      then \<lparr>memory_map_addr = mmap_addr info, memory_map_length = mmap_length info,
            next_free_frame = None, current_mmap_offset = 0\<rparr>
      else \<lparr>memory_map_addr = 0, memory_map_length = 0, next_free_frame = None,
            current_mmap_offset = 0\<rparr>)"

definition align_up :: "u64 \<Rightarrow> u64 \<Rightarrow> u64 run" where
  "align_up value align =
     (let remainder = value mod align in
      if remainder = 0 then Ret value
      else rbind (add_ov value align) (\<lambda>x. sub_ov x remainder))"

definition region_start :: "memory_map_entry \<Rightarrow> u64" where
  "region_start e = ucast (base_addr_low e) OR push_bit 32 (ucast (base_addr_high e))"

definition region_length :: "memory_map_entry \<Rightarrow> u64" where
  "region_length e = ucast (length_low e) OR push_bit 32 (ucast (length_high e))"

definition region_end :: "memory_map_entry \<Rightarrow> u64" where
  "region_end e = saturating_add (region_start e) (region_length e)"

definition allocation_floor :: "memory_map_entry \<Rightarrow> u64" where
  "allocation_floor e = max (region_start e) (ucast LOW_MEMORY_RESERVED_END)"

definition kernel_end_aligned :: "u32 \<Rightarrow> u32 run" where
  "kernel_end_aligned kernel_end =
     (if kernel_end mod PAGE_SIZE = 0 then Ret kernel_end
      else rbind (sub_ov kernel_end (kernel_end mod PAGE_SIZE)) (\<lambda>x. add_ov x PAGE_SIZE))"

text \<open>The cursor of the region, initialised on the first visit.\<close>

definition candidate_of :: "memory_map_entry \<Rightarrow> u32 option \<Rightarrow> u32 run" where
  "candidate_of e next =
     (case next of
        None \<Rightarrow> rbind (align_up (allocation_floor e) (ucast PAGE_SIZE)) (\<lambda>a. Ret (ucast a))
      | Some n \<Rightarrow> Ret n)"

text \<open>
  One round of the loop on the entry at the cursor: the frame and the next cursor, or \<open>None\<close>
  when the entry has no frame (left) and the loop moves on.
\<close>

definition try_entry ::
    "u32 \<Rightarrow> u32 \<Rightarrow> memory_map_entry \<Rightarrow> u32 option \<Rightarrow> (u32 \<times> u32) option run" where
  "try_entry ks ke entry next =
     (if \<not> is_available entry then Ret None
      else if allocation_floor entry \<ge> region_end entry \<or>
              allocation_floor entry > ucast (- 1 :: u32) then Ret None
      else
        rbind (candidate_of entry next) (\<lambda>candidate0.
        rbind (kernel_end_aligned ke) (\<lambda>kea.
        let candidate_end = saturating_add candidate0 PAGE_SIZE;
            candidate = (if candidate0 < kea \<and> candidate_end > ks then kea else candidate0);
            frame_end = saturating_add candidate PAGE_SIZE
        in
        if ucast frame_end \<le> region_end entry \<and> frame_end > candidate
        then rbind (add_ov candidate PAGE_SIZE) (\<lambda>n. Ret (Some (candidate, n)))
        else Ret None)))"

function allocate_frame ::
    "(u32 \<Rightarrow> memory_map_entry) \<Rightarrow> u32 \<Rightarrow> u32 \<Rightarrow> bump_allocator \<Rightarrow> (u32 option \<times> bump_allocator) run" where
  "allocate_frame mem ks ke s =
     (if \<not> current_mmap_offset s < memory_map_length s then Ret (None, s)
      else
        rbind (add_ov (memory_map_addr s) (current_mmap_offset s)) (\<lambda>mmap.
        rbind (try_entry ks ke (mem mmap) (next_free_frame s)) (\<lambda>r.
        case r of
          Some (frame, next) \<Rightarrow> Ret (Some frame, s\<lparr>next_free_frame := Some next\<rparr>)
        | None \<Rightarrow>
            rbind (add_ov (entry_size (mem mmap)) 4) (\<lambda>d.
            rbind (add_ov (current_mmap_offset s) d) (\<lambda>offset'.
            allocate_frame mem ks ke
              (s\<lparr>current_mmap_offset := offset', next_free_frame := None\<rparr>))))))"
  by pat_completeness auto
termination
  by (relation "measure (\<lambda>(mem, ks, ke, s). unat (memory_map_length s) - unat (current_mmap_offset s))")
    (auto intro: advance_decreases)

declare print_entries.simps [simp del] allocate_frame.simps [simp del]

section \<open>One entry\<close>

text \<open>An available region of a well-formed map may lie anywhere but in the last page below four
  gigabytes, where a PC has its firmware: it ends at or below that page or starts at or above
  four gigabytes.\<close>

definition ram_limit :: nat where "ram_limit = 0xFFFFF000"

definition region :: "memory_map_entry \<Rightarrow> nat set" where
  "region e = (if is_available e then {unat (region_start e)..<unat (region_end e)} else {})"

definition ram_ok :: "memory_map_entry \<Rightarrow> bool" where
  "ram_ok e \<longleftrightarrow>
     (is_available e \<longrightarrow> unat (region_end e) \<le> ram_limit \<or> 2 ^ 32 \<le> unat (region_start e))"

definition cursor_ok :: "memory_map_entry \<Rightarrow> u32 option \<Rightarrow> bool" where
  "cursor_ok e next \<longleftrightarrow>
     (\<forall>n. next = Some n \<longrightarrow> is_available e \<and> 4096 dvd unat n \<and> unat (allocation_floor e) \<le> unat n)"

definition frame_at :: "u32 \<Rightarrow> nat set" where
  "frame_at f = {unat f..<unat f + 4096}"

lemma unat_floor: "unat (allocation_floor e) = max (unat (region_start e)) 0x100000"
  by (simp add: allocation_floor_def LOW_MEMORY_RESERVED_END_def max_def word_le_nat_alt)

lemma align_up_eq:
  assumes "unat v < 2 ^ 63"
  obtains a where "align_up v (ucast PAGE_SIZE) = Inr a" "unat a = align_up_nat 4096 (unat v)"
proof -
  have p: "unat (ucast PAGE_SIZE :: u64) = 4096" by (simp add: PAGE_SIZE_def)
  have m: "unat (v mod ucast PAGE_SIZE) = unat v mod 4096" by (simp add: unat_mod p)
  have "unat v + unat (ucast PAGE_SIZE :: u64) < 2 ^ LENGTH(64)" using assms p by simp
  then obtain x where x: "add_ov v (ucast PAGE_SIZE) = Inr x" "unat x = unat v + 4096"
    by (rule add_ov_nat) (simp add: p)
  have "unat (v mod ucast PAGE_SIZE) \<le> unat x"
    using m x(2) mod_less_divisor [of 4096 "unat v"] by linarith
  then obtain y where y: "sub_ov x (v mod ucast PAGE_SIZE) = Inr y"
    "unat y = unat x - unat (v mod ucast PAGE_SIZE)" by (rule sub_ov_nat)
  have z: "v mod ucast PAGE_SIZE = 0 \<longleftrightarrow> unat v mod 4096 = 0" using m by (metis unat_eq_zero)
  show thesis
  proof (cases "unat v mod 4096 = 0")
    case True
    then show thesis using that [of v] z by (simp add: align_up_def Let_def align_up_nat_def)
  next
    case False
    then have "align_up v (ucast PAGE_SIZE) = Inr y"
      using z x(1) y(1) by (simp add: align_up_def Let_def)
    moreover have "unat y = align_up_nat 4096 (unat v)"
      using False y(2) x(2) m by (simp add: align_up_nat_def)
    ultimately show thesis by (rule that)
  qed
qed

lemma kernel_end_aligned_eq:
  assumes "unat ke \<le> ram_limit"
  obtains kea where "kernel_end_aligned ke = Inr kea" "unat ke \<le> unat kea" "4096 dvd unat kea"
proof -
  have p: "unat PAGE_SIZE = 4096" by (simp add: PAGE_SIZE_def)
  have m: "unat (ke mod PAGE_SIZE) = unat ke mod 4096" by (simp add: unat_mod p)
  show thesis
  proof (cases "ke mod PAGE_SIZE = 0")
    case True
    then have "unat ke mod 4096 = 0" using m by simp
    then show thesis using that [of ke] True by (simp add: kernel_end_aligned_def mod_eq_0_iff_dvd)
  next
    case False
    then have nz: "unat ke mod 4096 \<noteq> 0" using m by (metis unat_eq_zero)
    have "unat (ke mod PAGE_SIZE) \<le> unat ke" by (simp add: m)
    then obtain x where x: "sub_ov ke (ke mod PAGE_SIZE) = Inr x" "unat x = unat ke - unat ke mod 4096"
      by (rule sub_ov_nat) (simp add: m)
    have "unat x + unat PAGE_SIZE < 2 ^ LENGTH(32)"
      using x(2) nz assms p by (simp add: ram_limit_def)
    then obtain y where y: "add_ov x PAGE_SIZE = Inr y" "unat y = unat x + 4096"
      by (rule add_ov_nat) (simp add: p)
    have "unat y = align_up_nat 4096 (unat ke)"
      using x(2) y(2) nz by (simp add: align_up_nat_def)
    then show thesis
      using that [of y] False x y align_up_nat [of 4096 "unat ke"] by (simp add: kernel_end_aligned_def)
  qed
qed

lemma align_up_limit: "x < ram_limit \<Longrightarrow> align_up_nat 4096 x \<le> ram_limit"
  using align_up_nat_least [of 4096 ram_limit x] by (simp add: ram_limit_def)

lemma unat_u32_of_u64: "unat a < 2 ^ 32 \<Longrightarrow> unat (ucast (a :: u64) :: u32) = unat a"
  by (simp add: unsigned_ucast_eq take_bit_nat_eq_self)

lemma first_frame:
  assumes "unat (allocation_floor e) < ram_limit"
  obtains a where "align_up (allocation_floor e) (ucast PAGE_SIZE) = Inr a"
    "unat (ucast a :: u32) = align_up_nat 4096 (unat (allocation_floor e))"
proof -
  have "unat (allocation_floor e) < 2 ^ 63" using assms by (simp add: ram_limit_def)
  then obtain a where a: "align_up (allocation_floor e) (ucast PAGE_SIZE) = Inr a"
    "unat a = align_up_nat 4096 (unat (allocation_floor e))" by (rule align_up_eq)
  have "unat a < 2 ^ 32" using align_up_limit [OF assms] a(2) by (simp add: ram_limit_def)
  from unat_u32_of_u64 [OF this] a show thesis using that by metis
qed

lemma first_candidate:
  assumes "unat (region_end e) \<le> ram_limit" "allocation_floor e < region_end e" "cursor_ok e next"
  obtains c where "candidate_of e next = Inr c"
    "4096 dvd unat c" "unat (allocation_floor e) \<le> unat c" "\<forall>n. next = Some n \<longrightarrow> c = n"
proof (cases "next")
  case None
  have "unat (allocation_floor e) < ram_limit"
    using assms(1,2) by (simp add: word_less_nat_alt)
  then obtain a where a: "align_up (allocation_floor e) (ucast PAGE_SIZE) = Inr a"
    "unat (ucast a :: u32) = align_up_nat 4096 (unat (allocation_floor e))" by (rule first_frame)
  have "candidate_of e next = Inr (ucast a)" using None a(1) by (simp add: candidate_of_def)
  moreover have "4096 dvd unat (ucast a :: u32)" "unat (allocation_floor e) \<le> unat (ucast a :: u32)"
    unfolding a(2) by (rule align_up_nat(3), simp, rule align_up_nat(1), simp)
  ultimately show thesis using that None by blast
next
  case (Some n)
  then have "candidate_of e next = Inr n" by (simp add: candidate_of_def)
  moreover have "4096 dvd unat n" "unat (allocation_floor e) \<le> unat n"
    using assms(3) Some by (auto simp: cursor_ok_def)
  ultimately show thesis using that Some by blast
qed

lemma unat_u64_of_u32 [simp]: "unat (ucast x :: u64) = unat x" for x :: u32
proof -
  have "unat x < 2 ^ 32" using unsigned_less [of x, where 'a = nat] by simp
  then show ?thesis by (simp add: unsigned_ucast_eq take_bit_nat_eq_self)
qed

text \<open>What one round yields on a well-formed entry; it never panics.\<close>

lemma try_entry_cases:
  assumes "ram_ok e" "cursor_ok e next" "unat ke \<le> ram_limit"
  shows "try_entry ks ke e next = Ret None \<or>
    (\<exists>f n. try_entry ks ke e next = Ret (Some (f, n)) \<and> is_available e \<and> 4096 dvd unat f \<and>
       unat n = unat f + 4096 \<and> 0x100000 \<le> unat f \<and> frame_at f \<subseteq> region e \<and>
       frame_at f \<inter> {unat ks..<unat ke} = {} \<and> unat (allocation_floor e) \<le> unat f \<and>
       (\<forall>m. next = Some m \<longrightarrow> unat m \<le> unat f))"
proof (cases "is_available e \<and> allocation_floor e < region_end e \<and>
    \<not> allocation_floor e > ucast (- 1 :: u32)")
  case True
  have "unat (allocation_floor e) < 2 ^ 32"
    using True by (simp add: word_less_nat_alt unat_max_word not_less)
  then have lim: "unat (region_end e) \<le> ram_limit" using assms(1) True by (simp add: ram_ok_def unat_floor)
  obtain c where c: "candidate_of e next = Inr c"
    "4096 dvd unat c" "unat (allocation_floor e) \<le> unat c" "\<forall>n. next = Some n \<longrightarrow> c = n"
    using first_candidate [OF lim _ assms(2)] True by blast
  obtain kea where k: "kernel_end_aligned ke = Inr kea" "unat ke \<le> unat kea" "4096 dvd unat kea"
    using kernel_end_aligned_eq [OF assms(3)] .
  define f where "f = (if c < kea \<and> saturating_add c PAGE_SIZE > ks then kea else c)"
  have f: "4096 dvd unat f" "unat c \<le> unat f" using c(2) k(3) by (auto simp: f_def word_less_nat_alt)
  have eq: "try_entry ks ke e next =
      (if ucast (saturating_add f PAGE_SIZE) \<le> region_end e \<and> saturating_add f PAGE_SIZE > f
       then rbind (add_ov f PAGE_SIZE) (\<lambda>n. Ret (Some (f, n))) else Ret None)"
  proof -
    have "\<not> (allocation_floor e \<ge> region_end e \<or> allocation_floor e > ucast (- 1 :: u32))"
      using True by (simp add: not_le)
    moreover have "is_available e" using True by simp
    ultimately show ?thesis
      by (simp only: try_entry_def c(1) k(1) rbind_Inr Let_def f_def [symmetric] if_False if_True
          not_True_eq_False)
  qed
  show ?thesis
  proof (cases "ucast (saturating_add f PAGE_SIZE) \<le> region_end e \<and> saturating_add f PAGE_SIZE > f")
    case fits: True
    then have le: "min (unat f + 4096) (2 ^ 32 - 1) \<le> unat (region_end e)"
      by (simp add: word_le_nat_alt saturating_add_unat PAGE_SIZE_def)
    with lim have fe: "unat f + 4096 \<le> unat (region_end e)" by (simp add: ram_limit_def min_def split: if_splits)
    then have "unat f + unat PAGE_SIZE < 2 ^ LENGTH(32)" using lim by (simp add: PAGE_SIZE_def ram_limit_def)
    then obtain n where n: "add_ov f PAGE_SIZE = Inr n" "unat n = unat f + unat PAGE_SIZE" by (rule add_ov_nat)
    have "frame_at f \<inter> {unat ks..<unat ke} = {}"
    proof (cases "c < kea \<and> saturating_add c PAGE_SIZE > ks")
      case True
      then show ?thesis using k(2) by (auto simp: f_def frame_at_def)
    next
      case False
      then have "f = c" "unat kea \<le> unat c \<or> unat (saturating_add c PAGE_SIZE) \<le> unat ks"
        by (auto simp: f_def word_less_nat_alt)
      then show ?thesis
        using k(2) fe lim by (auto simp: frame_at_def saturating_add_unat PAGE_SIZE_def ram_limit_def)
    qed
    moreover have "frame_at f \<subseteq> region e" "0x100000 \<le> unat f"
      using True fe f(2) c(3) by (auto simp: frame_at_def region_def unat_floor)
    ultimately show ?thesis
      using eq fits n f c(3,4) True by (auto simp: PAGE_SIZE_def)
  qed (use eq in auto)
qed (auto simp: try_entry_def not_less)

text \<open>A region that starts in the last page below four gigabytes, on its first visit.\<close>

lemma last_page_round:
  assumes "is_available e" "region_start e < region_end e" "unat (region_start e) < 2 ^ 32"
    and "ram_limit \<le> unat (region_start e)" "kernel_end_aligned ke = Inr kea" "candidate_of e next = Inr c"
    and "\<not> (c < kea \<and> saturating_add c PAGE_SIZE > ks)"
  shows "try_entry ks ke e next =
    (if ucast (saturating_add c PAGE_SIZE) \<le> region_end e \<and> saturating_add c PAGE_SIZE > c
     then rbind (add_ov c PAGE_SIZE) (\<lambda>n. Ret (Some (c, n))) else Ret None)"
proof -
  have "unat (allocation_floor e) = unat (region_start e)" using assms(4) by (simp add: unat_floor ram_limit_def)
  then have "\<not> (allocation_floor e \<ge> region_end e \<or> allocation_floor e > ucast (- 1 :: u32))"
    using assms(2,3) by (simp add: word_less_nat_alt word_le_nat_alt unat_max_word)
  then show ?thesis
    using assms(1,5,6) by (simp only: try_entry_def rbind_Inr Let_def assms(7) if_False if_True not_True_eq_False)
qed

lemma try_last_page:
  assumes e: "is_available e" "region_start e < region_end e" "unat (region_start e) < 2 ^ 32"
    and k: "4096 \<le> unat ks" "unat ke \<le> ram_limit" and start: "ram_limit \<le> unat (region_start e)"
  shows "try_entry ks ke e None =
    (if ram_limit < unat (region_start e) then Ret (Some (0, 4096))
     else if 2 ^ 32 - 1 \<le> unat (region_end e) then Panic ArithOverflow else Ret None)"
proof -
  obtain kea where kea: "kernel_end_aligned ke = Inr kea" "4096 dvd unat kea"
    using kernel_end_aligned_eq [OF k(2)] .
  have fl: "unat (allocation_floor e) = unat (region_start e)" using start by (simp add: unat_floor ram_limit_def)
  then obtain a where a: "align_up (allocation_floor e) (ucast PAGE_SIZE) = Inr a"
    "unat a = align_up_nat 4096 (unat (region_start e))" using e(3) align_up_eq [of "allocation_floor e"] by auto
  have c: "candidate_of e None = Inr (ucast a)" using a(1) by (simp add: candidate_of_def)
  note round = last_page_round [OF e start kea(1) c]
  show ?thesis
  proof (cases "ram_limit < unat (region_start e)")
    case True
    then have "unat a = 2 ^ 32"
      using a(2) e(3) align_up_nat [of 4096 "unat (region_start e)"] align_up_nat_least [of 4096 "2 ^ 32"]
      by (auto simp: ram_limit_def)
    then have z: "(ucast a :: u32) = 0" by (simp add: word_unat_eq_iff unsigned_ucast_eq)
    have "4096 \<le> unat (region_end e)" using True e(2) by (simp add: ram_limit_def word_less_nat_alt)
    then show ?thesis
      using round True k(1)
      by (simp add: z saturating_add_def PAGE_SIZE_def word_less_nat_alt word_le_nat_alt add_ov_def)
  next
    case False
    then have "unat a = ram_limit" using start a(2) by (simp add: ram_limit_def align_up_nat_def)
    then have u: "(ucast a :: u32) = 0xFFFFF000"
      by (simp add: word_unat_eq_iff unsigned_ucast_eq ram_limit_def)
    have "unat kea < 2 ^ 32" using unsigned_less [of kea, where 'a = nat] by simp
    then have "unat kea \<le> 0xFFFFF000" using kea(2) by (elim dvdE) simp
    then show ?thesis
      using round False
      by (simp add: u saturating_add_def PAGE_SIZE_def word_less_nat_alt word_le_nat_alt unat_max_word add_ov_def)
  qed
qed

section \<open>The walk along the map\<close>

text \<open>The entries from an offset on, with their offsets.\<close>

function walk :: "(u32 \<Rightarrow> memory_map_entry) \<Rightarrow> nat \<Rightarrow> nat \<Rightarrow> nat \<Rightarrow> (nat \<times> memory_map_entry) list" where
  "walk mem addr len off =
     (if off < len
      then let e = mem (of_nat (addr + off)) in
           (off, e) # walk mem addr len (off + unat (entry_size e) + 4)
      else [])"
  by pat_completeness auto
termination
  by (relation "measure (\<lambda>(mem, addr, len, off). len - off)") auto

declare walk.simps [simp del]

text \<open>
  A well-formed map, from the entry at offset \<open>off\<close> on: the entries fill the map, the available
  regions are ordinary memory and do not overlap.
\<close>

definition map_ok :: "(u32 \<Rightarrow> memory_map_entry) \<Rightarrow> nat \<Rightarrow> nat \<Rightarrow> nat \<Rightarrow> bool" where
  "map_ok mem addr len off \<longleftrightarrow>
     addr + len < 2 ^ 32 \<and>
     (\<forall>(i, e) \<in> set (walk mem addr len off). i + unat (entry_size e) + 4 \<le> len \<and> ram_ok e) \<and>
     pairwise_disjoint (map (region \<circ> snd) (walk mem addr len off))"

lemma map_ok_step:
  assumes "map_ok mem addr len off" "off < len"
  defines "e \<equiv> mem (of_nat (addr + off))"
  defines "next_off \<equiv> off + unat (entry_size e) + 4"
  shows "next_off \<le> len" "ram_ok e" "map_ok mem addr len next_off"
    "walk mem addr len off = (off, e) # walk mem addr len next_off"
    "\<forall>q \<in> set (walk mem addr len next_off). region e \<inter> region (snd q) = {}"
proof -
  show w: "walk mem addr len off = (off, e) # walk mem addr len next_off"
    using assms(2) by (subst walk.simps) (simp add: e_def next_off_def Let_def)
  show "next_off \<le> len" "ram_ok e" "map_ok mem addr len next_off"
    "\<forall>q \<in> set (walk mem addr len next_off). region e \<inter> region (snd q) = {}"
    using assms(1) by (auto simp: map_ok_def w next_off_def)
qed

record frame_source =
  fs_mem :: "u32 \<Rightarrow> memory_map_entry"
  fs_kstart :: u32
  fs_kend :: u32
  fs_alloc :: bump_allocator

definition frame_block :: "unit \<Rightarrow> frame_source \<Rightarrow> nat set option \<times> frame_source" where
  "frame_block u g =
     (case allocate_frame (fs_mem g) (fs_kstart g) (fs_kend g) (fs_alloc g) of
        Inl _ \<Rightarrow> (None, g)
      | Inr (f, s) \<Rightarrow> (map_option frame_at f, g\<lparr>fs_alloc := s\<rparr>))"

abbreviation entries_left :: "(u32 \<Rightarrow> memory_map_entry) \<Rightarrow> bump_allocator \<Rightarrow> (nat \<times> memory_map_entry) list" where
  "entries_left mem s \<equiv>
     walk mem (unat (memory_map_addr s)) (unat (memory_map_length s)) (unat (current_mmap_offset s))"

definition alloc_wf :: "(u32 \<Rightarrow> memory_map_entry) \<Rightarrow> u32 \<Rightarrow> bump_allocator \<Rightarrow> bool" where
  "alloc_wf mem ke s \<longleftrightarrow>
     unat ke \<le> ram_limit \<and>
     map_ok mem (unat (memory_map_addr s)) (unat (memory_map_length s)) (unat (current_mmap_offset s)) \<and>
     (case entries_left mem s of [] \<Rightarrow> next_free_frame s = None | (i, e) # _ \<Rightarrow> cursor_ok e (next_free_frame s))"

fun free_from :: "u32 option \<Rightarrow> (nat \<times> memory_map_entry) list \<Rightarrow> nat set" where
  "free_from next [] = {}"
| "free_from next ((i, e) # es) =
     {x \<in> region e. \<forall>n. next = Some n \<longrightarrow> unat n \<le> x} \<union> \<Union> (set (map (region \<circ> snd) es))"

definition alloc_free :: "(u32 \<Rightarrow> memory_map_entry) \<Rightarrow> bump_allocator \<Rightarrow> nat set" where
  "alloc_free mem s = free_from (next_free_frame s) (entries_left mem s)"

text \<open>What a call of the allocator does to the free memory.\<close>

definition frame_call ::
    "(u32 \<Rightarrow> memory_map_entry) \<Rightarrow> u32 \<Rightarrow> u32 \<Rightarrow> nat set \<Rightarrow> u32 option \<Rightarrow> bump_allocator \<Rightarrow> bool" where
  "frame_call mem ks ke free r s' \<longleftrightarrow>
     alloc_wf mem ke s' \<and>
     (case r of
        None \<Rightarrow> alloc_free mem s' \<subseteq> free
      | Some f \<Rightarrow> 4096 dvd unat f \<and> 0x100000 \<le> unat f \<and> frame_at f \<inter> {unat ks..<unat ke} = {} \<and>
          frame_at f \<subseteq> free \<and> alloc_free mem s' \<subseteq> free - frame_at f)"

lemma free_from_None: "free_from None es = \<Union> (set (map (region \<circ> snd) es))"
  by (cases es) (force+)

lemma frame_call_skip:
  assumes "frame_call mem ks ke free r s'" "free \<subseteq> free'"
  shows "frame_call mem ks ke free' r s'"
  using assms by (auto simp: frame_call_def split: option.splits)

lemma entry_addr:
  "mem (of_nat (unat (memory_map_addr s) + unat (current_mmap_offset s))) =
   mem (memory_map_addr s + current_mmap_offset s)"
  by simp

lemma cursor_ok_None [simp]: "cursor_ok e None"
  by (simp add: cursor_ok_def)

lemma alloc_wf_entry:
  assumes "alloc_wf mem ke s" "unat (current_mmap_offset s) < unat (memory_map_length s)"
  defines "e \<equiv> mem (memory_map_addr s + current_mmap_offset s)"
  obtains rest where "entries_left mem s = (unat (current_mmap_offset s), e) # rest"
    "rest = walk mem (unat (memory_map_addr s)) (unat (memory_map_length s))
       (unat (current_mmap_offset s) + unat (entry_size e) + 4)"
    "unat (current_mmap_offset s) + unat (entry_size e) + 4 \<le> unat (memory_map_length s)"
    "unat (memory_map_addr s) + unat (memory_map_length s) < 2 ^ 32"
    "ram_ok e" "cursor_ok e (next_free_frame s)" "unat ke \<le> ram_limit"
    "map_ok mem (unat (memory_map_addr s)) (unat (memory_map_length s))
       (unat (current_mmap_offset s) + unat (entry_size e) + 4)"
    "\<forall>q \<in> set rest. region e \<inter> region (snd q) = {}"
proof -
  have m: "map_ok mem (unat (memory_map_addr s)) (unat (memory_map_length s)) (unat (current_mmap_offset s))"
    and k: "unat ke \<le> ram_limit" using assms(1) by (auto simp: alloc_wf_def)
  note st = map_ok_step [OF m assms(2), unfolded entry_addr, folded e_def]
  have c: "cursor_ok e (next_free_frame s)" using assms(1) st(4) by (simp add: alloc_wf_def)
  have "unat (memory_map_addr s) + unat (memory_map_length s) < 2 ^ 32"
    using m by (simp add: map_ok_def)
  then show thesis by (rule that [OF st(4) refl st(1) _ st(2) c k st(3) st(5)])
qed

lemma frame_call_take:
  assumes wf: "alloc_wf mem ke s" and off: "unat (current_mmap_offset s) < unat (memory_map_length s)"
    and t: "try_entry ks ke (mem (memory_map_addr s + current_mmap_offset s)) (next_free_frame s) =
      Ret (Some (f, n))"
  shows "frame_call mem ks ke (alloc_free mem s) (Some f) (s\<lparr>next_free_frame := Some n\<rparr>)"
proof -
  define e where "e = mem (memory_map_addr s + current_mmap_offset s)"
  obtain rest where r: "entries_left mem s = (unat (current_mmap_offset s), e) # rest"
    "ram_ok e" "cursor_ok e (next_free_frame s)" "unat ke \<le> ram_limit"
    "\<forall>q \<in> set rest. region e \<inter> region (snd q) = {}"
    by (rule alloc_wf_entry [OF wf off, folded e_def])
  have f: "is_available e" "4096 dvd unat f" "unat n = unat f + 4096" "0x100000 \<le> unat f"
    "frame_at f \<subseteq> region e" "frame_at f \<inter> {unat ks..<unat ke} = {}"
    "unat (allocation_floor e) \<le> unat f" "\<forall>m. next_free_frame s = Some m \<longrightarrow> unat m \<le> unat f"
    using try_entry_cases [OF r(2,3,4), of ks] t by (auto simp: e_def)
  have "cursor_ok e (Some n)" using f by (simp add: cursor_ok_def)
  then have "alloc_wf mem ke (s\<lparr>next_free_frame := Some n\<rparr>)" using wf r(1) by (simp add: alloc_wf_def)
  moreover have "frame_at f \<subseteq> alloc_free mem s"
    using f r(1) by (auto simp: alloc_free_def frame_at_def)
  moreover have "alloc_free mem (s\<lparr>next_free_frame := Some n\<rparr>) \<subseteq> alloc_free mem s - frame_at f"
    using f r(1,5) by (fastforce simp: alloc_free_def frame_at_def)
  ultimately show ?thesis using f by (simp add: frame_call_def)
qed

lemma allocate_frame_call:
  "alloc_wf mem ke s \<Longrightarrow>
   \<exists>r s'. allocate_frame mem ks ke s = Ret (r, s') \<and> frame_call mem ks ke (alloc_free mem s) r s'"
proof (induction mem ks ke s rule: allocate_frame.induct)
  case (1 mem ks ke s)
  define e where "e = mem (memory_map_addr s + current_mmap_offset s)"
  show ?case
  proof (cases "current_mmap_offset s < memory_map_length s")
    case False
    then show ?thesis using 1(2) by (subst allocate_frame.simps) (simp add: frame_call_def)
  next
    case True
    then have lt: "unat (current_mmap_offset s) < unat (memory_map_length s)" by (simp add: word_less_nat_alt)
    obtain rest where r: "entries_left mem s = (unat (current_mmap_offset s), e) # rest"
      "rest = walk mem (unat (memory_map_addr s)) (unat (memory_map_length s))
         (unat (current_mmap_offset s) + unat (entry_size e) + 4)"
      "unat (current_mmap_offset s) + unat (entry_size e) + 4 \<le> unat (memory_map_length s)"
      "unat (memory_map_addr s) + unat (memory_map_length s) < 2 ^ 32"
      "ram_ok e" "cursor_ok e (next_free_frame s)" "unat ke \<le> ram_limit"
      "map_ok mem (unat (memory_map_addr s)) (unat (memory_map_length s))
         (unat (current_mmap_offset s) + unat (entry_size e) + 4)"
      by (rule alloc_wf_entry [OF 1(2) lt, folded e_def])
    have a: "add_ov (memory_map_addr s) (current_mmap_offset s) =
        Inr (memory_map_addr s + current_mmap_offset s)"
      using r(4) lt by (intro add_ov_ok) simp
    show ?thesis
    proof (cases "try_entry ks ke e (next_free_frame s) = Ret None")
      case False
      then obtain f n where "try_entry ks ke e (next_free_frame s) = Ret (Some (f, n))"
        using try_entry_cases [OF r(5,6,7), of ks] by blast
      then show ?thesis
        using True a frame_call_take [OF 1(2) lt, of ks f n]
        by (subst allocate_frame.simps) (simp add: e_def)
    next
      case none: True
      have "unat (entry_size e) + unat (4 :: u32) < 2 ^ LENGTH(32)" using r(3,4) by simp
      then obtain d where d: "add_ov (entry_size e) 4 = Inr d" "unat d = unat (entry_size e) + unat (4 :: u32)"
        by (rule add_ov_nat)
      have "unat (current_mmap_offset s) + unat d < 2 ^ LENGTH(32)" using r(3,4) d(2) by simp
      then obtain off' where off': "add_ov (current_mmap_offset s) d = Inr off'"
        "unat off' = unat (current_mmap_offset s) + unat d" by (rule add_ov_nat)
      let ?s' = "s\<lparr>current_mmap_offset := off', next_free_frame := None\<rparr>"
      have eq: "allocate_frame mem ks ke s = allocate_frame mem ks ke ?s'"
        using True a none d off' by (subst allocate_frame.simps) (simp add: e_def)
      have o: "unat off' = unat (current_mmap_offset s) + unat (entry_size e) + 4"
        using off'(2) d(2) by simp
      have "alloc_wf mem ke ?s'" using r(7,8) o by (simp add: alloc_wf_def split: list.splits)
      then obtain r' s' where "allocate_frame mem ks ke ?s' = Ret (r', s')"
          "frame_call mem ks ke (alloc_free mem ?s') r' s'"
        using 1(1) [OF _ a none [unfolded e_def] refl d(1) [unfolded e_def] off'(1)] True by auto
      moreover have "alloc_free mem ?s' \<subseteq> alloc_free mem s"
        using r(1,2) o by (auto simp: alloc_free_def free_from_None)
      ultimately show ?thesis using eq frame_call_skip by fastforce
    qed
  qed
qed

section \<open>The frame allocator is a source of blocks\<close>

definition frames_wf :: "frame_source \<Rightarrow> bool" where
  "frames_wf g \<longleftrightarrow> alloc_wf (fs_mem g) (fs_kend g) (fs_alloc g)"

definition frames_free :: "frame_source \<Rightarrow> nat set" where
  "frames_free g = alloc_free (fs_mem g) (fs_alloc g)"

lemma frame_block_call:
  assumes "frames_wf g" "frame_block u g = (blk, g')"
  obtains r s' where "blk = map_option frame_at r" "g' = g\<lparr>fs_alloc := s'\<rparr>"
    "frame_call (fs_mem g) (fs_kstart g) (fs_kend g) (frames_free g) r s'"
proof -
  have wf: "alloc_wf (fs_mem g) (fs_kend g) (fs_alloc g)" using assms(1) by (simp add: frames_wf_def)
  obtain r s' where "allocate_frame (fs_mem g) (fs_kstart g) (fs_kend g) (fs_alloc g) = Ret (r, s')"
    "frame_call (fs_mem g) (fs_kstart g) (fs_kend g) (alloc_free (fs_mem g) (fs_alloc g)) r s'"
    using allocate_frame_call [OF wf] by blast
  then show thesis using that [of r s'] assms(2) by (simp add: frame_block_def frames_free_def)
qed

interpretation frames: block_source frame_block frames_free frames_wf
proof
  fix g u b g'
  assume "frames_wf g" "frame_block u g = (Some b, g')"
  then obtain r s' where "Some b = map_option frame_at r" "g' = g\<lparr>fs_alloc := s'\<rparr>"
    "frame_call (fs_mem g) (fs_kstart g) (fs_kend g) (frames_free g) r s'" by (rule frame_block_call)
  then show "b \<subseteq> frames_free g \<and> frames_free g' \<subseteq> frames_free g - b"
    by (cases r) (auto simp: frame_call_def frames_free_def)
next
  fix g u g'
  assume "frames_wf g" "frame_block u g = (None, g')"
  then obtain r s' where "None = map_option frame_at r" "g' = g\<lparr>fs_alloc := s'\<rparr>"
    "frame_call (fs_mem g) (fs_kstart g) (fs_kend g) (frames_free g) r s'" by (rule frame_block_call)
  then show "frames_free g' \<subseteq> frames_free g" by (auto simp: frame_call_def frames_free_def)
next
  fix g u
  assume wf: "frames_wf g"
  obtain blk g' where b: "frame_block u g = (blk, g')" by (cases "frame_block u g")
  obtain r s' where "g' = g\<lparr>fs_alloc := s'\<rparr>"
    "frame_call (fs_mem g) (fs_kstart g) (fs_kend g) (frames_free g) r s'"
    using wf b by (rule frame_block_call)
  then show "frames_wf (snd (frame_block u g))" using b by (simp add: frame_call_def frames_wf_def)
qed

section \<open>The printed total\<close>

lemma disjoint_cards:
  "pairwise_disjoint As \<Longrightarrow> \<forall>A \<in> set As. A \<subseteq> {..<n :: nat} \<Longrightarrow> sum_list (map card As) = card (\<Union> (set As))"
proof (induction As)
  case (Cons A As)
  have "finite A" "finite (\<Union> (set As))" using Cons.prems(2) by (auto intro: finite_subset)
  moreover have "A \<inter> \<Union> (set As) = {}" using Cons.prems(1) by auto
  ultimately show ?case using Cons by (simp add: card_Un_disjoint)
qed simp

text \<open>Maps whose total the counter can hold: the regions end below four tebibytes.\<close>

definition below_4_tib :: "memory_map_entry \<Rightarrow> bool" where
  "below_4_tib e \<longleftrightarrow> (is_available e \<longrightarrow> unat (region_end e) \<le> 2 ^ 42)"

abbreviation map_entries :: "(u32 \<Rightarrow> memory_map_entry) \<Rightarrow> multiboot_info \<Rightarrow> memory_map_entry list" where
  "map_entries mem info \<equiv> map snd (walk mem (unat (mmap_addr info)) (unat (mmap_length info)) 0)"

lemma regions_fit:
  assumes "map_ok mem addr len off" "list_all (below_4_tib \<circ> snd) (walk mem addr len off)"
  shows "sum_list (map (card \<circ> region \<circ> snd) (walk mem addr len off)) < 2 ^ 42"
proof -
  let ?As = "map (region \<circ> snd) (walk mem addr len off)"
  have sub: "\<forall>A \<in> set ?As. A \<subseteq> {..<2 ^ 42} - {ram_limit}"
    using assms by (fastforce simp: map_ok_def region_def ram_ok_def below_4_tib_def ram_limit_def list_all_iff
        split: if_splits)
  then have "\<forall>A \<in> set ?As. A \<subseteq> {..<2 ^ 42}" by blast
  then have "sum_list (map card ?As) = card (\<Union> (set ?As))"
    using assms(1) by (intro disjoint_cards) (auto simp: map_ok_def)
  also have "\<dots> \<le> card ({..<2 ^ 42} - {ram_limit})" using sub by (intro card_mono) auto
  also have "\<dots> < 2 ^ 42" by (simp add: ram_limit_def)
  finally show ?thesis by (simp add: comp_assoc)
qed

lemma card_region:
  assumes "below_4_tib e" "is_available e"
  shows "card (region e) = unat (region_length e)"
proof -
  have "min (unat (region_start e) + unat (region_length e)) (2 ^ 64 - 1) \<le> 2 ^ 42"
    using assms by (simp add: below_4_tib_def region_end_def saturating_add_unat)
  then have "unat (region_end e) = unat (region_start e) + unat (region_length e)"
    by (simp add: region_end_def saturating_add_unat min_def split: if_splits)
  with assms(2) show ?thesis by (simp add: region_def)
qed

lemma length_low_region:
  assumes "below_4_tib e" "is_available e"
  shows "unat (length_low e) \<le> card (region e)"
proof -
  have "take_bit 32 (region_length e) = ucast (length_low e)"
    unfolding region_length_def by (rule bit_word_eqI) (auto simp: bit_simps bit_ucast_iff dest: bit_imp_le_length)
  then have "unat (length_low e) = take_bit 32 (unat (region_length e))"
    by (metis unat_u64_of_u32 unsigned_take_bit_eq)
  then show ?thesis using card_region [OF assms] by simp
qed

text \<open>The kilobytes the code adds for an entry, and the kilobytes of its region.\<close>

definition low_kb :: "memory_map_entry \<Rightarrow> nat" where
  "low_kb e = (if is_available e then unat (length_low e) div 1024 else 0)"

definition entry_kb :: "memory_map_entry \<Rightarrow> nat" where
  "entry_kb e = card (region e) div 1024"

lemma low_kb_region:
  assumes "below_4_tib e" "is_available e \<Longrightarrow> length_high e = 0"
  shows "low_kb e = entry_kb e"
proof (cases "is_available e")
  case True
  then have "region_length e = ucast (length_low e)" using assms(2) by (simp add: region_length_def)
  then show ?thesis using True card_region [OF assms(1) True] by (simp add: low_kb_def entry_kb_def)
qed (simp add: low_kb_def entry_kb_def region_def)

lemma add_entry_kb:
  assumes "below_4_tib e" "1024 * unat t + card (region e) < 2 ^ 42"
  obtains t' where "(if is_available e then add_ov t (length_low e div 1024) else Ret t) = Inr t'"
    "unat t' = unat t + low_kb e" "1024 * unat t' \<le> 1024 * unat t + card (region e)"
proof (cases "is_available e")
  case True
  have kb: "1024 * (unat (length_low e) div 1024) \<le> card (region e)"
    using length_low_region [OF assms(1) True] by simp
  then have "unat t + unat (length_low e div 1024) < 2 ^ LENGTH(32)"
    using assms(2) by (simp add: unat_div)
  then obtain x where "add_ov t (length_low e div 1024) = Inr x"
    "unat x = unat t + unat (length_low e div 1024)" by (rule add_ov_nat)
  with True kb that show thesis by (simp add: low_kb_def unat_div)
qed (use that in \<open>simp add: low_kb_def\<close>)

lemma print_entries_total:
  assumes "map_ok mem (unat addr) (unat len) off" "off \<le> unat len"
    and "1024 * unat t + sum_list (map (card \<circ> region \<circ> snd) (walk mem (unat addr) (unat len) off)) < 2 ^ 42"
    and "list_all (below_4_tib \<circ> snd) (walk mem (unat addr) (unat len) off)"
  shows "\<exists>ops t'. print_entries mem (addr + len) (addr + of_nat off) t = Ret (ops, t') \<and>
    length ops = length (walk mem (unat addr) (unat len) off) \<and>
    unat t' = unat t + sum_list (map (low_kb \<circ> snd) (walk mem (unat addr) (unat len) off))"
  using assms
proof (induction "unat len - off" arbitrary: off t rule: less_induct)
  case less
  have bound: "unat addr + unat len < 2 ^ 32" using less.prems(1) by (simp add: map_ok_def)
  have pos: "unat (addr + of_nat off) = unat addr + off"
    using bound less.prems(2) by (simp add: unat_plus_noov unat_of_nat)
  have fin: "unat (addr + len) = unat addr + unat len" using bound by (simp add: unat_plus_noov)
  show ?case
  proof (cases "off < unat len")
    case False
    then have "walk mem (unat addr) (unat len) off = []" by (subst walk.simps) simp
    then show ?thesis using False pos fin by (subst print_entries.simps) (simp add: word_less_nat_alt)
  next
    case True
    define e where "e = mem (addr + of_nat off)"
    define next_off where "next_off = off + unat (entry_size e) + 4"
    let ?w = "walk mem (unat addr) (unat len)"
    have e: "mem (of_nat (unat addr + off)) = e" by (simp add: e_def)
    note st = map_ok_step [OF less.prems(1) True, unfolded e, folded next_off_def]
    have small_e: "below_4_tib e" "list_all (below_4_tib \<circ> snd) (?w next_off)" using less.prems(4) st(4) by simp_all
    have "1024 * unat t + card (region e) < 2 ^ 42" using less.prems(3) st(4) by simp
    with small_e(1) obtain t1 where t1:
      "(if is_available e then add_ov t (length_low e div 1024) else Ret t) = Inr t1"
      "unat t1 = unat t + low_kb e" "1024 * unat t1 \<le> 1024 * unat t + card (region e)"
      by (rule add_entry_kb)
    have small: "1024 * unat t1 + sum_list (map (card \<circ> region \<circ> snd) (?w next_off)) < 2 ^ 42"
      using less.prems(3) st(4) t1(3) by simp
    have "unat (entry_size e) + unat (4 :: u32) < 2 ^ LENGTH(32)" using st(1) bound by (simp add: next_off_def)
    then obtain d where d: "add_ov (entry_size e) 4 = Inr d" "unat d = unat (entry_size e) + unat (4 :: u32)"
      by (rule add_ov_nat)
    have "unat (addr + of_nat off) + unat d < 2 ^ LENGTH(32)"
      using pos d(2) st(1) bound by (simp add: next_off_def)
    then obtain p where p: "add_ov (addr + of_nat off) d = Inr p" "unat p = unat (addr + of_nat off) + unat d"
      by (rule add_ov_nat)
    have "unat p = unat (addr + of_nat next_off)"
      using p(2) pos d(2) bound st(1) by (simp add: next_off_def unat_plus_noov unat_of_nat)
    then have p': "p = addr + of_nat next_off" by (rule unsigned_word_eqI)
    have "unat len - next_off < unat len - off" using True by (simp add: next_off_def)
    from less.hyps [OF this st(3) st(1) small small_e(2)] obtain ops t' where
      r: "print_entries mem (addr + len) (addr + of_nat next_off) t1 = Ret (ops, t')"
      "length ops = length (?w next_off)" "unat t' = unat t1 + sum_list (map (low_kb \<circ> snd) (?w next_off))"
      by blast
    have "addr + of_nat off < addr + len" using True pos fin by (simp add: word_less_nat_alt)
    then show ?thesis
      using r t1(1,2) d(1) p(1) p' st(4)
      by (subst print_entries.simps) (simp add: e_def [symmetric] Let_def)
  qed
qed

text \<open>The answers of \<open>n\<close> calls of the allocator; a panic of any call is one of the sequence.\<close>

fun frame_calls ::
    "nat \<Rightarrow> (u32 \<Rightarrow> memory_map_entry) \<Rightarrow> u32 \<Rightarrow> u32 \<Rightarrow> bump_allocator \<Rightarrow> u32 option list run" where
  "frame_calls 0 mem ks ke s = Ret []"
| "frame_calls (Suc n) mem ks ke s =
     rbind (allocate_frame mem ks ke s) (\<lambda>(f, s').
     rbind (frame_calls n mem ks ke s') (\<lambda>fs. Ret (f # fs)))"

abbreviation handed_out :: "u32 option list \<Rightarrow> u32 list" where
  "handed_out fs \<equiv> List.map_filter (\<lambda>f. f) fs"

definition usable_frame :: "u32 \<Rightarrow> u32 \<Rightarrow> u32 \<Rightarrow> bool" where
  "usable_frame ks ke f \<longleftrightarrow> 4096 dvd unat f \<and> 0x100000 \<le> unat f \<and> frame_at f \<inter> {unat ks..<unat ke} = {}"

lemma frame_calls_blocks:
  fixes mem :: "u32 \<Rightarrow> memory_map_entry" and ks ke :: u32
  defines "g \<equiv> \<lambda>s. \<lparr>fs_mem = mem, fs_kstart = ks, fs_kend = ke, fs_alloc = s\<rparr>"
  assumes "alloc_wf mem ke s"
  shows "\<exists>fs. frame_calls n mem ks ke s = Ret fs \<and> length fs = n \<and>
    map frame_at (handed_out fs) = blocks_of frame_block (replicate n ()) (g s) \<and>
    (\<forall>f. Some f \<in> set fs \<longrightarrow> usable_frame ks ke f)"
  using assms(2)
proof (induction n arbitrary: s)
  case (Suc n)
  obtain r s' where r: "allocate_frame mem ks ke s = Ret (r, s')" "frame_call mem ks ke (alloc_free mem s) r s'"
    using allocate_frame_call [OF Suc.prems] by blast
  then obtain fs where fs: "frame_calls n mem ks ke s' = Ret fs" "length fs = n"
    "map frame_at (handed_out fs) = blocks_of frame_block (replicate n ()) (g s')"
    "\<forall>f. Some f \<in> set fs \<longrightarrow> usable_frame ks ke f"
    using Suc.IH [of s'] by (auto simp: frame_call_def)
  have b: "frame_block () (g s) = (map_option frame_at r, g s')" using r(1) by (simp add: frame_block_def g_def)
  show ?case
  proof (intro exI [of _ "r # fs"] conjI)
    show "frame_calls (Suc n) mem ks ke s = Ret (r # fs)" using r(1) fs(1) by simp
    show "map frame_at (handed_out (r # fs)) = blocks_of frame_block (replicate (Suc n) ()) (g s)"
      using fs(3) b by (cases r) (simp_all add: List.map_filter_simps)
    show "\<forall>f. Some f \<in> set (r # fs) \<longrightarrow> usable_frame ks ke f"
      using fs(4) r(2) by (cases r) (simp_all add: frame_call_def usable_frame_def)
  qed (simp add: fs(2))
qed (simp add: List.map_filter_simps)

lemma bump_new_wf:
  assumes "has_memory_map info" "unat ke \<le> ram_limit"
    "map_ok mem (unat (mmap_addr info)) (unat (mmap_length info)) 0"
  shows "alloc_wf mem ke (bump_new info)"
  using assms by (simp add: alloc_wf_def bump_new_def split: list.splits)

lemma print_map_ok:
  assumes "has_memory_map info" "map_ok mem (unat (mmap_addr info)) (unat (mmap_length info)) 0"
    and "list_all below_4_tib (map_entries mem info)"
  shows "\<exists>ops. print_memory_map mem info =
    Ret (serial_println ''Multiboot Memory Map detected!'' # ops @
      (let line = ''Total Available RAM: '' @
         show_nat (sum_list (map low_kb (map_entries mem info)) div 1024) @ '' MB''
       in [println line, serial_println line])) \<and> length ops = length (map_entries mem info)"
proof -
  have lim: "unat (mmap_addr info) + unat (mmap_length info) < 2 ^ 32"
    using assms(2) by (simp add: map_ok_def)
  have small: "list_all (below_4_tib \<circ> snd) (walk mem (unat (mmap_addr info)) (unat (mmap_length info)) 0)"
    using assms(3) by (simp add: list.pred_map)
  have "1024 * unat (0 :: u32) + sum_list (map (card \<circ> region \<circ> snd)
      (walk mem (unat (mmap_addr info)) (unat (mmap_length info)) 0)) < 2 ^ 42"
    using regions_fit [OF assms(2) small] by simp
  from print_entries_total [OF assms(2) _ this small] obtain ops t' where
    "print_entries mem (mmap_addr info + mmap_length info) (mmap_addr info) 0 = Ret (ops, t')"
    "length ops = length (map_entries mem info)" "unat t' = sum_list (map low_kb (map_entries mem info))"
    by auto
  moreover from this(3) have "unat (t' div 1024) = sum_list (map low_kb (map_entries mem info)) div 1024"
    by (simp add: unat_div)
  ultimately show ?thesis
    using assms(1) lim by (simp add: print_memory_map_def add_ov_ok Let_def)
qed

text \<open>A map with one entry, seven megabytes from the first one on.\<close>

definition demo_info :: multiboot_info where
  "demo_info = \<lparr>mb_flags = 64, mem_lower = 0, mem_upper = 0, boot_device = 0, cmdline = 0,
     mods_count = 0, mods_addr = 0, syms = [], mmap_length = 24, mmap_addr = 0x9000,
     drives_length = 0, drives_addr = 0, config_table = 0, boot_loader_name = 0, apm_table = 0,
     vbe_control_info = 0, vbe_mode_info = 0, vbe_mode = 0, vbe_interface_seg = 0,
     vbe_interface_off = 0, vbe_interface_len = 0\<rparr>"

definition demo_entry :: "u32 \<Rightarrow> u32 \<Rightarrow> memory_map_entry" where
  "demo_entry base len = \<lparr>entry_size = 20, base_addr_low = base, base_addr_high = 0,
     length_low = len, length_high = 0, buffer_type = 1\<rparr>"

lemma demo_region:
  "region_start (demo_entry b l) = ucast b" "region_length (demo_entry b l) = ucast l"
  "is_available (demo_entry b l)" "entry_size (demo_entry b l) = 20"
  by (simp_all add: region_start_def region_length_def demo_entry_def is_available_def)

lemma demo_walk: "walk (\<lambda>_. demo_entry b l) 0x9000 24 0 = [(0, demo_entry b l)]"
  by (subst walk.simps, simp add: Let_def demo_region, subst walk.simps, simp)

lemma demo_wf: "alloc_wf (\<lambda>_. demo_entry 0x100000 0x700000) 0x250000 (bump_new demo_info)"
proof (rule bump_new_wf)
  show "has_memory_map demo_info" by (simp add: has_memory_map_def demo_info_def)
  show "unat (0x250000 :: u32) \<le> ram_limit" by (simp add: ram_limit_def)
  have "ram_ok (demo_entry 0x100000 0x700000)"
    by (simp add: ram_ok_def region_end_def demo_region saturating_add_unat ram_limit_def)
  then show "map_ok (\<lambda>_. demo_entry 0x100000 0x700000) (unat (mmap_addr demo_info))
      (unat (mmap_length demo_info)) 0"
    by (simp add: map_ok_def demo_info_def demo_walk demo_region)
qed

text \<open>A map with a second available region, one gigabyte at four gigabytes.\<close>

definition demo_info2 :: multiboot_info where
  "demo_info2 = demo_info\<lparr>mmap_length := 48\<rparr>"

definition demo_map :: "u32 \<Rightarrow> memory_map_entry" where
  "demo_map a =
     (if a = 0x9000 then demo_entry 0x100000 0x700000
      else (demo_entry 0 0x40000000)\<lparr>base_addr_high := 1\<rparr>)"

lemma demo_map_walk:
  "walk demo_map 0x9000 48 0 = [(0, demo_map 0x9000), (24, demo_map 0x9018)]"
  by (subst walk.simps, simp add: Let_def demo_map_def demo_entry_def, subst walk.simps, simp add: Let_def demo_map_def
      demo_entry_def, subst walk.simps, simp)

lemma demo_map_regions:
  "region (demo_map 0x9000) = {0x100000..<0x800000}"
  "region (demo_map 0x9018) = {0x100000000..<0x140000000}"
  "ram_ok (demo_map 0x9000)" "ram_ok (demo_map 0x9018)"
  by (simp_all add: region_def ram_ok_def region_start_def region_length_def region_end_def demo_map_def demo_entry_def
      is_available_def saturating_add_def push_bit_eq_mult ram_limit_def)

lemma demo_map_ok:
  "has_memory_map demo_info2"
  "map_ok demo_map (unat (mmap_addr demo_info2)) (unat (mmap_length demo_info2)) 0"
proof -
  show "has_memory_map demo_info2" by (simp add: has_memory_map_def demo_info2_def demo_info_def)
  have "entry_size (demo_map a) = 20" for a by (simp add: demo_map_def demo_entry_def)
  then show "map_ok demo_map (unat (mmap_addr demo_info2)) (unat (mmap_length demo_info2)) 0"
    by (simp add: map_ok_def demo_info2_def demo_info_def demo_map_walk demo_map_regions)
qed

text \<open>Only the low half of a region's length is counted: four gigabytes of memory above the first
  four are printed as none.\<close>

lemma high_memory_not_counted:
  defines "e \<equiv> (demo_entry 0 0)\<lparr>base_addr_high := 1, length_high := 1\<rparr>"
  shows "card (region e) = 2 ^ 32 \<and>
    (\<exists>line. print_memory_map (\<lambda>_. e) demo_info =
       Ret [serial_println ''Multiboot Memory Map detected!'', line,
            println ''Total Available RAM: 0 MB'', serial_println ''Total Available RAM: 0 MB''])"
proof
  have "region_start e = 0x100000000" "region_length e = 0x100000000"
    by (simp_all add: e_def demo_entry_def region_start_def region_length_def push_bit_eq_mult)
  moreover have "is_available e" by (simp add: e_def demo_entry_def is_available_def)
  ultimately show "card (region e) = 2 ^ 32" by (simp add: region_def region_end_def saturating_add_def)
  have f: "is_available e" "length_low e = 0" "entry_size e = 20"
    by (simp_all add: e_def demo_entry_def is_available_def)
  have "print_entries (\<lambda>_. e) 0x9018 0x9018 t = Ret ([], t)" for t
    by (subst print_entries.simps) simp
  then have "\<exists>line. print_entries (\<lambda>_. e) 0x9018 0x9000 0 = Ret ([line], 0)"
    by (subst print_entries.simps) (simp add: f add_ov_def Let_def)
  moreover have "show_nat 0 = ''0''" by code_simp
  ultimately show "\<exists>line. print_memory_map (\<lambda>_. e) demo_info =
       Ret [serial_println ''Multiboot Memory Map detected!'', line,
            println ''Total Available RAM: 0 MB'', serial_println ''Total Available RAM: 0 MB'']"
    by (auto simp: print_memory_map_def has_memory_map_def demo_info_def add_ov_def Let_def)
qed

section \<open>Properties\<close>

text \<open>C29: on a well-formed memory map, whose available regions are disjoint and may lie anywhere
  but in the last page below four gigabytes, a call of the frame allocator never panics. A frame
  it returns is page-aligned, lies above the first megabyte and outside the kernel image, consists
  of memory that was free and is free no longer; when it returns none, no memory became free.\<close>

theorem allocated_frame_is_usable:
  assumes "alloc_wf mem ke s"
  shows "\<exists>r s'. allocate_frame mem ks ke s = Ret (r, s') \<and> alloc_wf mem ke s' \<and>
     (case r of
        None \<Rightarrow> alloc_free mem s' \<subseteq> alloc_free mem s
      | Some f \<Rightarrow> 4096 dvd unat f \<and> 0x100000 \<le> unat f \<and> frame_at f \<inter> {unat ks..<unat ke} = {} \<and>
          frame_at f \<subseteq> alloc_free mem s \<and> alloc_free mem s' \<subseteq> alloc_free mem s - frame_at f)"
  using allocate_frame_call [OF assms, of ks] by (simp add: frame_call_def)

theorem allocated_frame_is_usable_witness:
  "\<exists>r s'. allocate_frame demo_map 0x100000 0x250000 (bump_new demo_info2) = Ret (r, s') \<and>
     alloc_wf demo_map 0x250000 s'"
proof -
  have "unat (0x250000 :: u32) \<le> ram_limit" by (simp add: ram_limit_def)
  from allocated_frame_is_usable [OF bump_new_wf [OF demo_map_ok(1) this demo_map_ok(2)], of "0x100000"]
  show ?thesis by blast
qed

text \<open>C30: on a well-formed memory map, one without available memory in the last page below four
  gigabytes, and with the kernel below that page, any number of calls of the frame allocator,
  starting from the boot loader's map, return without a panic. The frames they hand out are
  page-aligned, above the first megabyte, outside the kernel image, pairwise disjoint, and pieces of
  the available regions.\<close>

theorem frames_never_overlap:
  assumes "has_memory_map info" and "unat ke \<le> ram_limit"
    and "map_ok mem (unat (mmap_addr info)) (unat (mmap_length info)) 0"
  shows "\<exists>fs. frame_calls n mem ks ke (bump_new info) = Ret fs \<and> length fs = n \<and>
     pairwise_disjoint (map frame_at (handed_out fs)) \<and>
     (\<forall>f. Some f \<in> set fs \<longrightarrow> usable_frame ks ke f) \<and>
     (\<forall>b \<in> set (map frame_at (handed_out fs)). b \<subseteq> \<Union> (set (map region (map_entries mem info))))"
proof -
  let ?g = "\<lparr>fs_mem = mem, fs_kstart = ks, fs_kend = ke, fs_alloc = bump_new info\<rparr>"
  note wf = bump_new_wf [OF assms]
  have "frames_wf ?g" using wf by (simp add: frames_wf_def)
  moreover have "frames_free ?g = \<Union> (set (map region (map_entries mem info)))"
    using assms(1) by (simp add: frames_free_def alloc_free_def bump_new_def free_from_None)
  ultimately have "(\<forall>b \<in> set (blocks_of frame_block (replicate n ()) ?g).
      b \<subseteq> \<Union> (set (map region (map_entries mem info)))) \<and> pairwise_disjoint (blocks_of frame_block (replicate n ()) ?g)"
    using frames.blocks_free_disjoint [of ?g "replicate n ()"] by simp
  with frame_calls_blocks [OF wf, of n ks] show ?thesis by metis
qed

theorem frames_never_overlap_witness:
  "\<exists>fs. frame_calls 3 demo_map 0x100000 0x250000 (bump_new demo_info2) = Ret fs \<and> length fs = 3 \<and>
     pairwise_disjoint (map frame_at (handed_out fs))"
proof -
  have "unat (0x250000 :: u32) \<le> ram_limit" by (simp add: ram_limit_def)
  from frames_never_overlap [OF demo_map_ok(1) this demo_map_ok(2), of 3 "0x100000"] show ?thesis by blast
qed

text \<open>C31: on a well-formed map the walk that prints the memory at boot ends without a panic: one
  line per entry, and a total that is the sum of the kilobytes of the available regions, which
  fits 32 bits because the regions are disjoint and end below four tebibytes. Each available
  region is shorter than four gigabytes: the code drops the high half of its length.\<close>

theorem memory_map_printed:
  assumes "has_memory_map info" and "map_ok mem (unat (mmap_addr info)) (unat (mmap_length info)) 0"
    and "list_all below_4_tib (map_entries mem info)"
    and "list_all (\<lambda>e. is_available e \<longrightarrow> length_high e = 0) (map_entries mem info)"
  shows "\<exists>ops. print_memory_map mem info =
    Ret (serial_println ''Multiboot Memory Map detected!'' # ops @
      (let line = ''Total Available RAM: '' @
         show_nat (sum_list (map entry_kb (map_entries mem info)) div 1024) @ '' MB''
       in [println line, serial_println line])) \<and> length ops = length (map_entries mem info)"
proof -
  have "map low_kb (map_entries mem info) = map entry_kb (map_entries mem info)"
    using assms(3,4) by (intro map_cong) (auto simp: list_all_iff intro!: low_kb_region)
  then show ?thesis using print_map_ok [OF assms(1-3)] by (simp only:)
qed

theorem memory_map_printed_witness:
  "\<exists>ops. print_memory_map (\<lambda>_. demo_entry 0x100000 0x700000) demo_info =
     Ret (serial_println ''Multiboot Memory Map detected!'' # ops @
       [println ''Total Available RAM: 7 MB'', serial_println ''Total Available RAM: 7 MB'']) \<and>
     length ops = 1"
proof -
  have "has_memory_map demo_info" by (simp add: has_memory_map_def demo_info_def)
  moreover have "map_ok (\<lambda>_. demo_entry 0x100000 0x700000) (unat (mmap_addr demo_info))
      (unat (mmap_length demo_info)) 0"
    using demo_wf by (simp add: alloc_wf_def bump_new_def has_memory_map_def demo_info_def)
  moreover have b: "below_4_tib (demo_entry 0x100000 0x700000)"
    by (simp add: below_4_tib_def region_end_def demo_region saturating_add_unat)
  moreover have "entry_kb (demo_entry 0x100000 0x700000) div 1024 = 7"
    by (simp add: entry_kb_def card_region [OF b] demo_region)
  moreover have "length_high (demo_entry 0x100000 0x700000) = 0" by (simp add: demo_entry_def)
  moreover have "show_nat 7 = ''7''" by code_simp
  ultimately show ?thesis
    using memory_map_printed [of demo_info "\<lambda>_. demo_entry 0x100000 0x700000"]
    by (simp add: demo_info_def demo_walk Let_def)
qed

text \<open>C39: an available region that starts in the last page below four gigabytes is mishandled.
  When it starts inside the page, the aligned start does not fit 32 bits, and the allocator
  returns the frame at address zero: below the reserved first megabyte and outside the region.
  When it starts at the page and reaches the last address, the addition that moves the cursor
  behind the frame overflows and the allocator panics. The entry is the one at the cursor, not
  yet visited; the kernel image lies above the first page and below the last one.\<close>

theorem last_page_yields_frame_zero:
  fixes mem :: "u32 \<Rightarrow> memory_map_entry" and s :: bump_allocator
  defines "e \<equiv> mem (memory_map_addr s + current_mmap_offset s)"
  assumes "current_mmap_offset s < memory_map_length s" "next_free_frame s = None"
    and "unat (memory_map_addr s) + unat (current_mmap_offset s) < 2 ^ 32"
    and "is_available e" "region_start e < region_end e" "unat (region_start e) < 2 ^ 32"
    and "4096 \<le> unat ks" "unat ke \<le> ram_limit"
  shows "(ram_limit < unat (region_start e) \<longrightarrow>
       allocate_frame mem ks ke s = Ret (Some 0, s\<lparr>next_free_frame := Some 4096\<rparr>) \<and>
       frame_at 0 \<inter> region e = {}) \<and>
     (unat (region_start e) = ram_limit \<and> 2 ^ 32 - 1 \<le> unat (region_end e) \<longrightarrow>
       allocate_frame mem ks ke s = Panic ArithOverflow)"
proof -
  have a: "add_ov (memory_map_addr s) (current_mmap_offset s) = Inr (memory_map_addr s + current_mmap_offset s)"
    using assms(4) by (intro add_ov_ok) simp
  have step: "allocate_frame mem ks ke s = rbind (try_entry ks ke e None) (\<lambda>r. case r of
      Some (frame, next) \<Rightarrow> Ret (Some frame, s\<lparr>next_free_frame := Some next\<rparr>)
    | None \<Rightarrow> rbind (add_ov (entry_size e) 4) (\<lambda>d. rbind (add_ov (current_mmap_offset s) d) (\<lambda>offset'.
        allocate_frame mem ks ke (s\<lparr>current_mmap_offset := offset', next_free_frame := None\<rparr>))))"
    using assms(2,3) a by (subst allocate_frame.simps) (simp add: e_def)
  show ?thesis
    using try_last_page [OF assms(5-9)] by (auto simp: step frame_at_def region_def ram_limit_def)
qed

theorem last_page_yields_frame_zero_witness:
  "allocate_frame (\<lambda>_. demo_entry 0xFFFFF800 0x800) 0x100000 0x250000 (bump_new demo_info) =
     Ret (Some 0, (bump_new demo_info)\<lparr>next_free_frame := Some 4096\<rparr>) \<and>
   allocate_frame (\<lambda>_. demo_entry 0xFFFFF000 0x1000) 0x100000 0x250000 (bump_new demo_info) = Panic ArithOverflow"
proof -
  have e: "region_start (demo_entry 0xFFFFF800 0x800) = 0xFFFFF800"
    "region_end (demo_entry 0xFFFFF800 0x800) = 0x100000000"
    "region_start (demo_entry 0xFFFFF000 0x1000) = 0xFFFFF000"
    "region_end (demo_entry 0xFFFFF000 0x1000) = 0x100000000"
    by (simp_all add: region_end_def demo_region saturating_add_def)
  have b: "current_mmap_offset (bump_new demo_info) = 0" "memory_map_length (bump_new demo_info) = 24"
    "memory_map_addr (bump_new demo_info) = 0x9000" "next_free_frame (bump_new demo_info) = None"
    by (simp_all add: bump_new_def has_memory_map_def demo_info_def)
  show ?thesis
    using last_page_yields_frame_zero [of "bump_new demo_info" "\<lambda>_. demo_entry 0xFFFFF800 0x800" "0x100000" "0x250000"]
      last_page_yields_frame_zero [of "bump_new demo_info" "\<lambda>_. demo_entry 0xFFFFF000 0x1000" "0x100000" "0x250000"]
    by (simp add: b e demo_region ram_limit_def)
qed

end
