(* ===== verification/Paging.thy ===== *)
theory Paging
  imports Enos_Prelude
begin

text \<open>
  The address space of \<^verbatim>\<open>src/src/paging.rs\<close>: one page directory with two page tables,
  mapping the first eight megabytes to themselves, and the range check the system calls use. A
  table is the list of its 1024 entries; the physical addresses of the two tables are arguments
  (aligned to a page, as their type demands). The two-level walk of the processor is the
  reference against which the tables are read.
\<close>

definition PAGE_PRESENT :: u32 where "PAGE_PRESENT = 0x01"
definition PAGE_RW :: u32 where "PAGE_RW = 0x02"
definition PAGE_USER :: u32 where "PAGE_USER = 0x04"
definition ENTRIES_PER_TABLE :: nat where "ENTRIES_PER_TABLE = 1024"
definition USER_SPACE_START :: u32 where "USER_SPACE_START = 0x00400000"
definition USER_SPACE_END :: u32 where "USER_SPACE_END = 0x00800000"
definition USER_STACK_TOP :: u32 where "USER_STACK_TOP = USER_SPACE_END"

definition user_range_contains :: "u32 \<Rightarrow> usize \<Rightarrow> bool" where
  "user_range_contains ptr len =
     (if len = 0 then False
      else case checked_add ptr len of
             None \<Rightarrow> False
           | Some end_addr \<Rightarrow>
               ptr \<ge> USER_SPACE_START \<and> end_addr \<le> USER_SPACE_END \<and> end_addr > ptr)"

record address_space =
  page_directory :: "u32 list"
  page_table_0 :: "u32 list"
  page_table_1 :: "u32 list"

definition paging_static :: address_space where
  "paging_static =
     \<lparr>page_directory = replicate ENTRIES_PER_TABLE 0,
      page_table_0 = replicate ENTRIES_PER_TABLE 0,
      page_table_1 = replicate ENTRIES_PER_TABLE 0\<rparr>"

text \<open>The loops over \<^verbatim>\<open>0..ENTRIES_PER_TABLE\<close>: every index is in range and no sum
  overflows, so the loop is a map over the indices.\<close>

definition kernel_entry :: "nat \<Rightarrow> u32" where
  "kernel_entry i = (of_nat (i * 4096) OR PAGE_PRESENT) OR PAGE_RW"

definition user_entry :: "nat \<Rightarrow> u32" where
  "user_entry i = (((USER_SPACE_START + of_nat (i * 4096)) OR PAGE_PRESENT) OR PAGE_RW) OR PAGE_USER"

definition paging_init :: "u32 \<Rightarrow> u32 \<Rightarrow> address_space \<Rightarrow> address_space" where
  "paging_init pt0_phys pt1_phys m =
     (let t0 = map kernel_entry [0..<ENTRIES_PER_TABLE];
          t1 = map user_entry [0..<ENTRIES_PER_TABLE];
          pd = (page_directory m)[0 := (pt0_phys OR PAGE_PRESENT) OR PAGE_RW,
                                  1 := ((pt1_phys OR PAGE_PRESENT) OR PAGE_RW) OR PAGE_USER]
      in m\<lparr>page_directory := pd, page_table_0 := t0, page_table_1 := t1\<rparr>)"

text \<open>The control register with paging enabled.\<close>

definition enable_paging :: "u32 \<Rightarrow> u32" where
  "enable_paging cr0 = cr0 OR 0x80000000"

section \<open>The processor's walk\<close>

text \<open>
  A linear address has a 10-bit directory index, a 10-bit table index and a 12-bit offset. A
  user access needs the present and the user bit in both entries. \<open>table_at\<close> is the memory that
  holds the tables, by physical address.
\<close>

definition dir_index :: "u32 \<Rightarrow> nat" where "dir_index va = unat va div 4194304"
definition tab_index :: "u32 \<Rightarrow> nat" where "tab_index va = unat va div 4096 mod 1024"
definition frame_of :: "u32 \<Rightarrow> u32" where "frame_of e = e AND 0xFFFFF000"

definition allows :: "bool \<Rightarrow> u32 \<Rightarrow> bool" where
  "allows user e \<longleftrightarrow> bit e 0 \<and> (user \<longrightarrow> bit e 2)"

definition mmu_walk :: "(u32 \<Rightarrow> u32 list option) \<Rightarrow> u32 list \<Rightarrow> bool \<Rightarrow> u32 \<Rightarrow> u32 option" where
  "mmu_walk table_at pd user va =
     (let pde = pd ! dir_index va in
      if \<not> allows user pde then None
      else case table_at (frame_of pde) of
             None \<Rightarrow> None
           | Some pt \<Rightarrow>
               (let pte = pt ! tab_index va in
                if \<not> allows user pte then None else Some (frame_of pte OR (va AND 0xFFF))))"

definition tables_at :: "u32 \<Rightarrow> u32 \<Rightarrow> address_space \<Rightarrow> u32 \<Rightarrow> u32 list option" where
  "tables_at pt0 pt1 m a =
     (if a = pt0 then Some (page_table_0 m) else if a = pt1 then Some (page_table_1 m) else None)"

text \<open>The translation the kernel runs with after \<open>paging_init\<close>.\<close>

definition translate :: "u32 \<Rightarrow> u32 \<Rightarrow> bool \<Rightarrow> u32 \<Rightarrow> u32 option" where
  "translate pt0 pt1 user va =
     (let m = paging_init pt0 pt1 paging_static in
      mmu_walk (tables_at pt0 pt1 m) (page_directory m) user va)"

definition page_aligned :: "u32 \<Rightarrow> bool" where
  "page_aligned a \<longleftrightarrow> a AND 0xFFFFF000 = a"

section \<open>Entries\<close>

lemmas page_flags = PAGE_PRESENT_def PAGE_RW_def PAGE_USER_def

lemma frame_of_or: "f AND 0xFFFFF000 = 0 \<Longrightarrow> frame_of (a OR f) = frame_of a"
  by (simp add: frame_of_def bit.conj_disj_distrib2)

lemma page_aligned_push: "page_aligned (push_bit 12 w)"
proof -
  have m: "push_bit 12 (- 1) = (0xFFFFF000 :: u32)" by (simp add: push_bit_eq_mult)
  have "push_bit 12 w AND push_bit 12 (- 1) = push_bit 12 (w AND - 1)" by (rule push_bit_and [symmetric])
  then show ?thesis unfolding m page_aligned_def by simp
qed

lemma kernel_entry_eq: "kernel_entry i = (push_bit 12 (of_nat i) OR 1) OR 2"
  by (simp add: kernel_entry_def page_flags push_bit_eq_mult mult.commute)

lemma user_entry_eq: "user_entry i = ((push_bit 12 (of_nat (1024 + i)) OR 1) OR 2) OR 4"
  by (simp add: user_entry_def page_flags USER_SPACE_START_def push_bit_eq_mult algebra_simps)

lemma allows_flags:
  assumes "page_aligned a"
  shows "allows user ((a OR 1) OR 2) \<longleftrightarrow> \<not> user" "allows user (((a OR 1) OR 2) OR 4)"
    "frame_of ((a OR 1) OR 2) = a" "frame_of (((a OR 1) OR 2) OR 4) = a"
proof -
  have "bit a 2 = bit (a AND 0xFFFFF000) 2" using assms by (simp add: page_aligned_def)
  then have "\<not> bit a 2" by (simp add: bit_and_iff)
  then show "allows user ((a OR 1) OR 2) \<longleftrightarrow> \<not> user" "allows user (((a OR 1) OR 2) OR 4)"
    by (simp_all add: allows_def bit_or_iff)
  show "frame_of ((a OR 1) OR 2) = a" "frame_of (((a OR 1) OR 2) OR 4) = a"
    using assms by (simp_all add: frame_of_or) (simp_all add: frame_of_def page_aligned_def)
qed

lemma split_address: "push_bit 12 (of_nat (unat va div 4096)) OR (va AND 0xFFF) = (va :: u32)"
proof -
  have "unat va div 4096 = unat (va div 4096)" by (simp add: unat_div)
  then have "of_nat (unat va div 4096) = drop_bit 12 va" by (simp add: drop_bit_eq_div)
  moreover have "va AND 0xFFF = take_bit 12 va" by (simp add: take_bit_eq_mask mask_eq_exp_minus_1)
  moreover have "push_bit 12 (drop_bit 12 va) OR take_bit 12 va = va"
    by (rule bit_word_eqI) (auto simp: bit_simps)
  ultimately show ?thesis by simp
qed

lemma tables_of_init:
  "page_directory (paging_init pt0 pt1 paging_static) =
     (replicate 1024 0)[0 := (pt0 OR 1) OR 2, 1 := ((pt1 OR 1) OR 2) OR 4]"
  "page_table_0 (paging_init pt0 pt1 paging_static) = map kernel_entry [0..<1024]"
  "page_table_1 (paging_init pt0 pt1 paging_static) = map user_entry [0..<1024]"
  by (simp_all only: paging_init_def paging_static_def Let_def page_flags ENTRIES_PER_TABLE_def
      address_space.simps address_space.update_convs)

lemma index_bounds: "dir_index va < 1024" "tab_index va < 1024"
proof -
  have "unat va < 2 ^ 32" using unsigned_less [of va, where 'a = nat] by simp
  then show "dir_index va < 1024" by (simp add: dir_index_def div_less_iff_less_mult)
qed (simp add: tab_index_def)

lemma page_number: "unat va div 4096 = dir_index va * 1024 + tab_index va"
  unfolding dir_index_def tab_index_def by (simp add: div_mult2_eq [of _ 4096 1024, simplified])

text \<open>The range check accepts exactly the nonempty ranges inside the user half.\<close>

lemma user_range_contains_iff:
  "user_range_contains ptr len \<longleftrightarrow>
     0 < unat len \<and> 0x400000 \<le> unat ptr \<and> unat ptr + unat len \<le> 0x800000"
proof (cases "checked_add ptr len")
  case None
  then have "2 ^ 32 \<le> unat ptr + unat len" by (simp add: checked_add_None)
  with None show ?thesis by (simp add: user_range_contains_def)
next
  case (Some e)
  then have "unat e = unat ptr + unat len" by (rule checked_add_unat)
  with Some show ?thesis
    by (auto simp: user_range_contains_def USER_SPACE_START_def USER_SPACE_END_def
        word_le_nat_alt word_less_nat_alt unat_gt_0)
qed

lemma translate_eq:
  assumes "page_aligned pt0" and "page_aligned pt1" and "pt0 \<noteq> pt1"
  shows "translate pt0 pt1 user va =
     (if unat va < 0x800000 \<and> (user \<longrightarrow> 0x400000 \<le> unat va) then Some va else None)"
proof -
  let ?m = "paging_init pt0 pt1 paging_static"
  note t = tables_of_init [of pt0 pt1]
  have pd: "page_directory ?m ! dir_index va =
      (if dir_index va = 0 then (pt0 OR 1) OR 2
       else if dir_index va = 1 then ((pt1 OR 1) OR 2) OR 4 else 0)"
    unfolding t using index_bounds(1) [of va] by (simp add: nth_list_update)
  have k: "page_table_0 ?m ! tab_index va = kernel_entry (tab_index va)"
    and u: "page_table_1 ?m ! tab_index va = user_entry (tab_index va)"
    unfolding t using index_bounds(2) [of va] by simp_all
  have "unat va < 0x800000 \<longleftrightarrow> dir_index va < 2" "0x400000 \<le> unat va \<longleftrightarrow> 1 \<le> dir_index va"
    unfolding dir_index_def by (auto simp: div_less_iff_less_mult Suc_le_eq div_greater_zero_iff)
  moreover have "dir_index va = 0 \<Longrightarrow> push_bit 12 (of_nat (tab_index va)) OR (va AND 0xFFF) = va"
    "dir_index va = 1 \<Longrightarrow> push_bit 12 (of_nat (1024 + tab_index va)) OR (va AND 0xFFF) = va"
    using split_address [of va] page_number [of va] by simp_all
  ultimately show ?thesis
    unfolding translate_def mmu_walk_def Let_def pd
    using assms by (auto simp: allows_flags tables_at_def k u kernel_entry_eq user_entry_eq
        page_aligned_push allows_def [of _ 0])
qed

section \<open>Properties\<close>

text \<open>C32: the tables map exactly the first eight megabytes, each address to itself; user mode
  reaches only the second four megabytes, so no user access translates to kernel memory.\<close>

theorem address_space_isolates_kernel:
  assumes "page_aligned pt0" and "page_aligned pt1" and "pt0 \<noteq> pt1"
  shows "translate pt0 pt1 user va =
     (if unat va < 0x800000 \<and> (user \<longrightarrow> 0x400000 \<le> unat va) then Some va else None)"
  using assms by (rule translate_eq)

theorem address_space_isolates_kernel_witness:
  "translate 0x201000 0x202000 True 0x3FFFFF = None \<and>
   translate 0x201000 0x202000 True 0x400000 = Some 0x400000"
proof -
  have "page_aligned 0x201000" "page_aligned 0x202000" by (simp_all add: page_aligned_def)
  from address_space_isolates_kernel [OF this] show ?thesis by simp
qed

end
