(* ===== verification/Scheduler.thy ===== *)
theory Scheduler
  imports Enos_Prelude
begin

text \<open>
  The task manager of \<^verbatim>\<open>task.rs\<close>: its tasks, the round-robin scheduler driven by the
  timer interrupt, sleeping, killing and the termination of a faulting user task.
  Operations that can panic return a \<open>run\<close>; an operation that changes the task
  manager returns it updated.
\<close>

section \<open>Tasks\<close>

definition STACK_SIZE :: nat where
  "STACK_SIZE = 8192"

datatype task_privilege = Kernel | User

fun privilege_label :: "task_privilege \<Rightarrow> string" where
  "privilege_label Kernel = ''kernel''"
| "privilege_label User = ''user''"

datatype task_state = Ready | Sleeping (wake_at: u64) | Terminated

fun is_ready :: "task_state \<Rightarrow> bool" where
  "is_ready Ready = True"
| "is_ready _ = False"

record task =
  task_id :: usize
  task_name :: string
  task_privilege :: task_privilege
  task_state :: task_state
  task_stack :: "u8 list"
  stack_ptr :: u32
  run_ticks :: u64

text \<open>
  A 32-bit store at address \<open>a\<close> into a byte array that the machine placed at
  \<open>base\<close>, least significant byte first, as \<^verbatim>\<open>core::ptr::write\<close> does on the target.
\<close>

definition ptr_write :: "u32 \<Rightarrow> u32 \<Rightarrow> u32 \<Rightarrow> u8 list \<Rightarrow> u8 list" where
  "ptr_write base a v xs = store_le xs (unat (a - base)) v"

text \<open>
  \<^verbatim>\<open>sp -= 4; core::ptr::write(sp as *mut u32, v)\<close>: one push onto the mock frame.
\<close>

definition push32 :: "u32 \<Rightarrow> u32 \<Rightarrow> u32 \<times> u8 list \<Rightarrow> (u32 \<times> u8 list) run" where
  "push32 base v st =
     rbind (sub_ov (fst st) 4) (\<lambda>sp. Ret (sp, ptr_write base sp v (snd st)))"

fun push_zeros :: "nat \<Rightarrow> u32 \<Rightarrow> u32 \<times> u8 list \<Rightarrow> (u32 \<times> u8 list) run" where
  "push_zeros 0 base st = Ret st"
| "push_zeros (Suc n) base st = rbind (push32 base 0 st) (push_zeros n base)"

text \<open>
  \<^verbatim>\<open>Task::new\<close>. Two values come from the machine: the address \<open>stack_base\<close> of the
  freshly boxed stack and the content \<open>cs\<close> of the code segment register.
\<close>

definition task_new ::
    "usize \<Rightarrow> string \<Rightarrow> task_privilege \<Rightarrow> u32 \<Rightarrow> u32 \<Rightarrow> u16 \<Rightarrow> task run" where
  "task_new tid name priv entry_point stack_base cs =
     (let stack0 = replicate STACK_SIZE 0 in
      rbind (add_ov stack_base (of_nat STACK_SIZE)) (\<lambda>stack_top.
      rbind (push32 stack_base 0x202 (stack_top, stack0)) (\<lambda>st1.
      rbind (push32 stack_base (ucast cs) st1) (\<lambda>st2.
      rbind (push32 stack_base entry_point st2) (\<lambda>st3.
      rbind (push_zeros 8 stack_base st3) (\<lambda>st4.
        Ret \<lparr>task_id = tid, task_name = name, task_privilege = priv, task_state = Ready,
             task_stack = snd st4, stack_ptr = fst st4, run_ticks = 0\<rparr>))))))"

definition placeholder_main :: "u32 \<Rightarrow> task" where
  "placeholder_main sp =
     \<lparr>task_id = 1, task_name = ''user_main'', task_privilege = User, task_state = Ready,
      task_stack = replicate STACK_SIZE 0, stack_ptr = sp, run_ticks = 0\<rparr>"

definition state_label :: "task \<Rightarrow> bool \<Rightarrow> string" where
  "state_label t is_current =
     (case task_state t of
        Ready \<Rightarrow> if is_current then ''running'' else ''ready''
      | Sleeping _ \<Rightarrow> ''sleep''
      | Terminated \<Rightarrow> ''dead'')"

section \<open>The task manager\<close>

record task_manager =
  tasks :: "task list"
  current_task_idx :: nat
  next_task_id :: usize
  tick_count :: u64
  main_task_tracked :: bool

record scheduler_stats =
  total_ticks :: u64
  total_tasks :: nat
  current_task_id :: usize

record process_row =
  ps_id :: usize
  ps_name :: string
  ps_state :: string
  ps_privilege :: string
  ps_run_ticks :: u64

datatype kill_task_result = KilledNow | MarkedForTermination

definition task_manager_new :: task_manager where
  "task_manager_new =
     \<lparr>tasks = [], current_task_idx = 0, next_task_id = 2, tick_count = 0,
      main_task_tracked = False\<rparr>"

definition ensure_main_task_tracked :: "u32 \<Rightarrow> task_manager \<Rightarrow> task_manager" where
  "ensure_main_task_tracked current_esp tm =
     (if \<not> main_task_tracked tm
      then tm\<lparr>tasks := placeholder_main current_esp # tasks tm,
              main_task_tracked := True, current_task_idx := 0\<rparr>
      else tm)"

definition wake_task :: "u64 \<Rightarrow> task \<Rightarrow> task" where
  "wake_task now t =
     (case task_state t of
        Sleeping w \<Rightarrow> if w \<le> now then t\<lparr>task_state := Ready\<rparr> else t
      | _ \<Rightarrow> t)"

definition wake_sleeping_tasks :: "task_manager \<Rightarrow> task_manager" where
  "wake_sleeping_tasks tm = tm\<lparr>tasks := map (wake_task (tick_count tm)) (tasks tm)\<rparr>"

text \<open>The \<^verbatim>\<open>while idx < self.tasks.len()\<close> loop of the clean-up.\<close>

definition drop_task :: "nat \<Rightarrow> task_manager \<Rightarrow> task_manager" where
  "drop_task idx tm =
     (let tm' = tm\<lparr>tasks := remove_at idx (tasks tm)\<rparr> in
      if idx < current_task_idx tm \<and> 0 < current_task_idx tm
      then tm'\<lparr>current_task_idx := current_task_idx tm - 1\<rparr>
      else tm')"

function cleanup_loop :: "nat \<Rightarrow> task_manager \<Rightarrow> task_manager" where
  "cleanup_loop idx tm =
     (if idx < length (tasks tm) then
        if idx = current_task_idx tm then cleanup_loop (idx + 1) tm
        else if task_state (tasks tm ! idx) = Terminated then
          cleanup_loop idx (drop_task idx tm)
        else cleanup_loop (idx + 1) tm
      else tm)"
  by pat_completeness auto
termination
  by (relation "measure (\<lambda>(idx, tm). length (tasks tm) - idx)")
     (auto simp: drop_task_def Let_def)

declare cleanup_loop.simps [simp del]

definition cleanup_terminated_non_current :: "task_manager \<Rightarrow> task_manager" where
  "cleanup_terminated_non_current tm =
     (let tm' = cleanup_loop 0 tm in
      if length (tasks tm') \<le> current_task_idx tm' \<and> tasks tm' \<noteq> []
      then tm'\<lparr>current_task_idx := 0\<rparr> else tm')"

definition first_ready_index :: "task_manager \<Rightarrow> nat option" where
  "first_ready_index tm = position (\<lambda>t. is_ready (task_state t)) (tasks tm)"

definition next_ready_after :: "nat \<Rightarrow> task_manager \<Rightarrow> nat option" where
  "next_ready_after start_idx tm =
     (if tasks tm = [] then None
      else map_option (\<lambda>off. (start_idx + off) mod length (tasks tm))
             (find (\<lambda>off. is_ready (task_state (tasks tm ! ((start_idx + off) mod length (tasks tm)))))
                [1 ..< length (tasks tm) + 1]))"

definition register_named_task ::
    "string \<Rightarrow> u32 \<Rightarrow> u32 \<Rightarrow> u16 \<Rightarrow> task_manager \<Rightarrow> task_manager run" where
  "register_named_task name entry_point stack_base cs tm =
     rbind (task_new (next_task_id tm) name Kernel entry_point stack_base cs) (\<lambda>t.
     rbind (add_ov (next_task_id tm) 1) (\<lambda>n.
       Ret (tm\<lparr>next_task_id := n, tasks := tasks tm @ [t]\<rparr>)))"

text \<open>
  The selection both scheduling paths end with: the next ready task in cyclic order,
  else the current task if it is ready, else the first ready one, else a panic.
\<close>

definition pick_next :: "string \<Rightarrow> task_manager \<Rightarrow> (u32 \<times> task_manager) run" where
  "pick_next msg tm =
     (let cur = current_task_idx tm;
          own = (if cur < length (tasks tm) \<and> is_ready (task_state (tasks tm ! cur))
                 then Some cur else None);
          choice = (case next_ready_after cur tm of
                      Some i \<Rightarrow> Some i
                    | None \<Rightarrow> (case own of Some i \<Rightarrow> Some i | None \<Rightarrow> first_ready_index tm))
      in case choice of
           None \<Rightarrow> Panic (ExplicitPanic msg)
         | Some i \<Rightarrow> Ret (stack_ptr (tasks tm ! i), tm\<lparr>current_task_idx := i\<rparr>))"

definition clamp_current :: "task_manager \<Rightarrow> task_manager" where
  "clamp_current tm =
     (if length (tasks tm) \<le> current_task_idx tm then tm\<lparr>current_task_idx := 0\<rparr> else tm)"

text \<open>
  The accounting step of \<^verbatim>\<open>schedule_next\<close>: a terminated current task is removed, any
  other has its stack pointer saved and one tick charged to it.
\<close>

definition charge_current :: "u32 \<Rightarrow> task_manager \<Rightarrow> task_manager run" where
  "charge_current current_esp tm =
     (let cur = current_task_idx tm; t = tasks tm ! cur in
      if task_state t = Terminated then
        let tm' = tm\<lparr>tasks := remove_at cur (tasks tm)\<rparr> in
        if tasks tm' = [] then Panic (ExplicitPanic ''All tasks terminated'')
        else Ret (clamp_current tm')
      else Ret (tm\<lparr>tasks := (tasks tm)[cur := t\<lparr>stack_ptr := current_esp,
                                              run_ticks := run_ticks t + 1\<rparr>]\<rparr>))"

definition schedule_next :: "u32 \<Rightarrow> task_manager \<Rightarrow> (u32 \<times> task_manager) run" where
  "schedule_next current_esp tm0 =
     (let tm1 = tm0\<lparr>tick_count := tick_count tm0 + 1\<rparr> in
      if tasks tm1 = [] then Ret (current_esp, tm1)
      else
        let tm2 = cleanup_terminated_non_current
                    (wake_sleeping_tasks (ensure_main_task_tracked current_esp tm1)) in
        if tasks tm2 = [] then Panic (ExplicitPanic ''Scheduler stalled: no tasks available'')
        else
          rbind (charge_current current_esp (clamp_current tm2)) (\<lambda>tm3.
            pick_next ''Scheduler stalled: no runnable tasks''
              (cleanup_terminated_non_current tm3)))"

definition sleep_current_task :: "u32 \<Rightarrow> u32 \<Rightarrow> task_manager \<Rightarrow> bool \<times> task_manager" where
  "sleep_current_task current_esp ticks tm0 =
     (if tasks tm0 = [] then (False, tm0)
      else
        let tm = ensure_main_task_tracked current_esp tm0; cur = current_task_idx tm in
        if tasks tm = [] then (False, tm)
        else if length (tasks tm) \<le> cur then (False, tm)
        else
          let t = tasks tm ! cur in
          if task_privilege t \<noteq> User then (False, tm)
          else if task_state t = Terminated then (False, tm)
          else
            let sleep_ticks = max 1 (ucast ticks :: u64) in
            (True, tm\<lparr>tasks := (tasks tm)[cur := t\<lparr>stack_ptr := current_esp,
                        task_state := Sleeping (tick_count tm + sleep_ticks)\<rparr>]\<rparr>))"

definition kill_task_by_pid ::
    "usize \<Rightarrow> task_manager \<Rightarrow> (string + kill_task_result) \<times> task_manager" where
  "kill_task_by_pid pid tm =
     (if pid = 0 then (Err ''cannot kill kernel task'', tm)
      else case position (\<lambda>t. task_id t = pid) (tasks tm) of
        None \<Rightarrow> (Err ''pid not found'', tm)
      | Some idx \<Rightarrow>
          let t = tasks tm ! idx in
          if task_privilege t \<noteq> User then (Err ''cannot kill kernel task'', tm)
          else if idx = current_task_idx tm then
            (Ok MarkedForTermination,
             tm\<lparr>tasks := (tasks tm)[idx := t\<lparr>task_state := Terminated\<rparr>]\<rparr>)
          else
            let tm' = drop_task idx tm in
            (Ok KilledNow,
             if length (tasks tm') \<le> current_task_idx tm' \<and> tasks tm' \<noteq> []
             then tm'\<lparr>current_task_idx := 0\<rparr> else tm'))"

definition terminate_current_user_task_from_fault ::
    "u32 \<Rightarrow> task_manager \<Rightarrow> (u32 \<times> task_manager) run" where
  "terminate_current_user_task_from_fault current_esp tm0 =
     (let tm1 = ensure_main_task_tracked current_esp tm0 in
      if tasks tm1 = [] then
        Panic (ExplicitPanic ''Task list empty while handling user fault'')
      else
        let tm2 = clamp_current tm1; cur = current_task_idx tm2 in
        if task_privilege (tasks tm2 ! cur) \<noteq> User then
          Panic (ExplicitPanic ''User-fault path invoked while current task is not user'')
        else
          let tm3 = tm2\<lparr>tasks := remove_at cur (tasks tm2)\<rparr> in
          if tasks tm3 = [] then
            Panic (ExplicitPanic ''All tasks terminated after user fault'')
          else
            pick_next ''No runnable task after user fault termination''
              (cleanup_terminated_non_current (wake_sleeping_tasks (clamp_current tm3))))"

definition stats :: "task_manager \<Rightarrow> scheduler_stats" where
  "stats tm =
     \<lparr>total_ticks = tick_count tm,
      total_tasks = (if main_task_tracked tm then length (tasks tm) + 1
                     else length (tasks tm) + 2),
      current_task_id =
        (if main_task_tracked tm
         then (if current_task_idx tm < length (tasks tm)
               then task_id (tasks tm ! current_task_idx tm) else 0)
         else 0)\<rparr>"

definition snapshot_of :: "task \<Rightarrow> bool \<Rightarrow> process_row" where
  "snapshot_of t is_current =
     \<lparr>ps_id = task_id t, ps_name = task_name t, ps_state = state_label t is_current,
      ps_privilege = privilege_label (task_privilege t), ps_run_ticks = run_ticks t\<rparr>"

definition process_snapshot :: "task_manager \<Rightarrow> process_row list" where
  "process_snapshot tm =
     \<lparr>ps_id = 0, ps_name = ''kernel_idle'', ps_state = ''idle'',
      ps_privilege = ''kernel'', ps_run_ticks = 0\<rparr> #
     (if main_task_tracked tm then
        map (\<lambda>(idx, t). snapshot_of t (idx = current_task_idx tm))
          (enumerate 0 (tasks tm))
      else
        \<lparr>ps_id = 1, ps_name = ''user_main'', ps_state = ''running'',
         ps_privilege = ''user'', ps_run_ticks = 0\<rparr> #
        map (\<lambda>t. snapshot_of t False) (tasks tm))"


section \<open>The clean-up loop\<close>

abbreviation live :: "task \<Rightarrow> bool" where
  "live t \<equiv> task_state t \<noteq> Terminated"

lemma cleanup_loop_past:
  assumes "current_task_idx tm < length xs"
  shows "cleanup_loop (length xs) (tm\<lparr>tasks := xs @ ys\<rparr>) = tm\<lparr>tasks := xs @ filter live ys\<rparr>"
  using assms
proof (induction ys arbitrary: xs)
  case Nil
  then show ?case by (simp add: cleanup_loop.simps)
next
  case (Cons y ys)
  show ?case
  proof (cases "live y")
    case True
    with Cons.IH [of "xs @ [y]"] Cons.prems show ?thesis
      by (subst cleanup_loop.simps) simp
  next
    case False
    with Cons.IH [of xs] Cons.prems show ?thesis
      by (subst cleanup_loop.simps) (simp add: drop_task_def)
  qed
qed

lemma cleanup_loop_upto:
  "cleanup_loop (length xs)
     (tm\<lparr>tasks := xs @ ys @ t # zs, current_task_idx := length xs + length ys\<rparr>) =
   tm\<lparr>tasks := xs @ filter live ys @ t # filter live zs,
      current_task_idx := length xs + length (filter live ys)\<rparr>"
proof (induction ys arbitrary: xs)
  case Nil
  have swap: "tm\<lparr>tasks := ts, current_task_idx := i\<rparr> = tm\<lparr>current_task_idx := i, tasks := ts\<rparr>"
    for ts i by simp
  show ?case
    using cleanup_loop_past [of "tm\<lparr>current_task_idx := length xs\<rparr>" "xs @ [t]" zs]
    by (subst cleanup_loop.simps) (simp add: swap)
next
  case (Cons y ys)
  show ?case
  proof (cases "live y")
    case True
    with Cons.IH [of "xs @ [y]"] show ?thesis
      by (subst cleanup_loop.simps) simp
  next
    case False
    with Cons.IH [of xs] show ?thesis
      by (subst cleanup_loop.simps) (simp add: drop_task_def)
  qed
qed

lemma cleanup_eq:
  assumes "current_task_idx tm < length (tasks tm)"
  defines "cur \<equiv> current_task_idx tm" and "ts \<equiv> tasks tm"
  shows "cleanup_terminated_non_current tm =
    tm\<lparr>tasks := filter live (take cur ts) @ ts ! cur # filter live (drop (Suc cur) ts),
       current_task_idx := length (filter live (take cur ts))\<rparr>"
proof -
  have split: "ts = take cur ts @ ts ! cur # drop (Suc cur) ts"
    unfolding cur_def ts_def using assms(1) by (rule id_take_nth_drop)
  have len: "length (take cur ts) = cur"
    using assms(1) by (simp add: cur_def ts_def)
  have tm: "tm\<lparr>tasks := [] @ take cur ts @ ts ! cur # drop (Suc cur) ts,
               current_task_idx := length [] + length (take cur ts)\<rparr> = tm"
    using split len by (simp add: cur_def ts_def)
  have "cleanup_loop 0 tm =
    tm\<lparr>tasks := filter live (take cur ts) @ ts ! cur # filter live (drop (Suc cur) ts),
       current_task_idx := length (filter live (take cur ts))\<rparr>"
    using cleanup_loop_upto [of "[]" "take cur ts" "ts ! cur" "drop (Suc cur) ts" tm]
    unfolding tm by simp
  then show ?thesis
    by (simp add: cleanup_terminated_non_current_def Let_def)
qed

definition others_live :: "task_manager \<Rightarrow> bool" where
  "others_live tm \<longleftrightarrow>
     (\<forall>i < length (tasks tm). i \<noteq> current_task_idx tm \<longrightarrow> live (tasks tm ! i))"

lemma cleanup_id:
  assumes "current_task_idx tm < length (tasks tm)" and "others_live tm"
  shows "cleanup_terminated_non_current tm = tm"
proof -
  let ?c = "current_task_idx tm" and ?ts = "tasks tm"
  have "filter live (take ?c ?ts) = take ?c ?ts"
    using assms by (auto simp: others_live_def filter_id_conv in_set_conv_nth)
  moreover have "filter live (drop (Suc ?c) ?ts) = drop (Suc ?c) ?ts"
    using assms by (auto simp: others_live_def filter_id_conv in_set_conv_nth)
  moreover have "take ?c ?ts @ ?ts ! ?c # drop (Suc ?c) ?ts = ?ts"
    using assms(1) by (simp add: id_take_nth_drop [symmetric])
  ultimately show ?thesis
    using assms(1) by (simp add: cleanup_eq [OF assms(1)])
qed

section \<open>Selecting the next task\<close>

abbreviation ready_at :: "task list \<Rightarrow> nat \<Rightarrow> bool" where
  "ready_at ts i \<equiv> is_ready (task_state (ts ! i))"

lemma is_ready_iff [simp]: "is_ready s \<longleftrightarrow> s = Ready"
  by (cases s) simp_all

lemma cyclic_offset:
  fixes start j n :: nat
  assumes "j < n"
  obtains off where "1 \<le> off" "off \<le> n" "(start + off) mod n = j"
proof
  define d where "d = (j + n - start mod n - 1) mod n"
  have n: "0 < n" using assms by simp
  show "1 \<le> d + 1" by simp
  show "d + 1 \<le> n" using n by (simp add: d_def Suc_le_eq)
  have "(start + (d + 1)) mod n = (start mod n + (j + n - start mod n - 1) + 1) mod n"
    by (simp add: d_def) (metis Suc_eq_plus1 add.assoc mod_Suc_eq mod_add_cong mod_mod_trivial)
  also have "start mod n + (j + n - start mod n - 1) + 1 = j + n"
    using mod_less_divisor [OF n, of start] by linarith
  finally show "(start + (d + 1)) mod n = j" using assms by simp
qed

lemma next_ready_after_Some:
  "next_ready_after start tm = Some i \<longleftrightarrow>
     (\<exists>off. 1 \<le> off \<and> off \<le> length (tasks tm) \<and> i = (start + off) mod length (tasks tm) \<and>
        ready_at (tasks tm) i \<and>
        (\<forall>k. 1 \<le> k \<and> k < off \<longrightarrow> \<not> ready_at (tasks tm) ((start + k) mod length (tasks tm))))"
  (is "?L \<longleftrightarrow> ?R")
proof (cases "tasks tm = []")
  case True
  then show ?thesis by (auto simp: next_ready_after_def)
next
  case False
  let ?n = "length (tasks tm)"
  let ?P = "\<lambda>off. ready_at (tasks tm) ((start + off) mod ?n)"
  have "?L \<longleftrightarrow> (\<exists>off. find ?P [1 ..< ?n + 1] = Some off \<and> i = (start + off) mod ?n)"
    using False by (auto simp: next_ready_after_def simp del: upt_Suc)
  also have "\<dots> \<longleftrightarrow> ?R"
    unfolding find_upt_Some by (auto simp: less_Suc_eq_le)
  finally show ?thesis .
qed

lemma next_ready_after_None:
  "next_ready_after start tm = None \<longleftrightarrow> (\<forall>j < length (tasks tm). \<not> ready_at (tasks tm) j)"
proof (cases "tasks tm = []")
  case True
  then show ?thesis by (simp add: next_ready_after_def)
next
  case False
  let ?n = "length (tasks tm)"
  have "next_ready_after start tm = None \<longleftrightarrow>
      (\<forall>off. 1 \<le> off \<and> off < ?n + 1 \<longrightarrow> \<not> ready_at (tasks tm) ((start + off) mod ?n))"
    using False by (simp add: next_ready_after_def find_upt_None del: upt_Suc)
  also have "\<dots> \<longleftrightarrow> (\<forall>j < ?n. \<not> ready_at (tasks tm) j)"
    using False by (metis cyclic_offset length_greater_0_conv less_Suc_eq_le mod_less_divisor
        Suc_eq_plus1)
  finally show ?thesis .
qed

text \<open>Both fall-backs of the selection are dead: the cyclic search already covers every task.\<close>

lemma pick_next_eq:
  "pick_next msg tm =
     (case next_ready_after (current_task_idx tm) tm of
        None \<Rightarrow> Inl (ExplicitPanic msg)
      | Some i \<Rightarrow> Inr (stack_ptr (tasks tm ! i), tm\<lparr>current_task_idx := i\<rparr>))"
proof (cases "next_ready_after (current_task_idx tm) tm")
  case None
  then have "\<forall>j < length (tasks tm). \<not> ready_at (tasks tm) j"
    by (simp add: next_ready_after_None)
  then have "first_ready_index tm = None"
    by (auto simp: first_ready_index_def position_None_iff in_set_conv_nth)
  with None \<open>\<forall>j < length (tasks tm). \<not> ready_at (tasks tm) j\<close> show ?thesis
    by (simp add: pick_next_def Let_def)
next
  case (Some i)
  then show ?thesis by (simp add: pick_next_def Let_def)
qed

lemma pick_next_ready:
  assumes "t \<in> set (tasks tm)" and "task_state t = Ready"
  obtains i where "next_ready_after (current_task_idx tm) tm = Some i"
    and "pick_next msg tm = Inr (stack_ptr (tasks tm ! i), tm\<lparr>current_task_idx := i\<rparr>)"
    and "i < length (tasks tm)" and "task_state (tasks tm ! i) = Ready"
proof -
  from assms have "next_ready_after (current_task_idx tm) tm \<noteq> None"
    by (auto simp: next_ready_after_None in_set_conv_nth)
  then obtain i where i: "next_ready_after (current_task_idx tm) tm = Some i" by blast
  then have "i < length (tasks tm)" and "task_state (tasks tm ! i) = Ready"
    using assms(1) by (auto simp: next_ready_after_Some intro!: mod_less_divisor length_pos_if_in_set)
  with i that show ?thesis by (simp add: pick_next_eq)
qed

section \<open>The scheduler invariant\<close>

lemma privilege_neq [simp]: "p \<noteq> Kernel \<longleftrightarrow> p = User" "p \<noteq> User \<longleftrightarrow> p = Kernel"
  by (cases p; simp)+

definition ids_ok :: "task_manager \<Rightarrow> bool" where
  "ids_ok tm \<longleftrightarrow> distinct (map task_id (tasks tm)) \<and> 2 \<le> next_task_id tm \<and>
     (\<forall>t \<in> set (tasks tm). 0 < task_id t \<and> task_id t < next_task_id tm)"

definition kernel_ok :: "task_manager \<Rightarrow> bool" where
  "kernel_ok tm \<longleftrightarrow>
     (\<forall>t \<in> set (tasks tm). task_privilege t = Kernel \<longrightarrow> task_state t = Ready) \<and>
     (\<exists>t \<in> set (tasks tm). task_privilege t = Kernel)"

definition tracking_ok :: "task_manager \<Rightarrow> bool" where
  "tracking_ok tm \<longleftrightarrow> current_task_idx tm < length (tasks tm) \<and>
     (\<not> main_task_tracked tm \<longrightarrow>
        current_task_idx tm = 0 \<and>
        (\<forall>t \<in> set (tasks tm). task_privilege t = Kernel \<and> task_id t \<noteq> 1))"

definition sched_inv :: "task_manager \<Rightarrow> bool" where
  "sched_inv tm \<longleftrightarrow> ids_ok tm \<and> kernel_ok tm \<and> tracking_ok tm \<and> others_live tm"

lemmas sched_inv_defs =
  sched_inv_def ids_ok_def kernel_ok_def tracking_ok_def others_live_def

lemma sched_inv_bound: "sched_inv tm \<Longrightarrow> current_task_idx tm < length (tasks tm)"
  by (simp add: sched_inv_def tracking_ok_def)

lemma sched_inv_nonempty: "sched_inv tm \<Longrightarrow> tasks tm \<noteq> []"
  by (auto simp: sched_inv_def kernel_ok_def)

lemma sched_inv_ready:
  assumes "sched_inv tm"
  obtains t where "t \<in> set (tasks tm)" and "task_state t = Ready" and "task_privilege t = Kernel"
  using assms by (auto simp: sched_inv_def kernel_ok_def)

lemma sched_inv_tick: "sched_inv (tm\<lparr>tick_count := n\<rparr>) = sched_inv tm"
  by (simp add: sched_inv_defs)

lemma sched_inv_ensure:
  assumes "sched_inv tm"
  shows "sched_inv (ensure_main_task_tracked esp tm)"
proof (cases "main_task_tracked tm")
  case True
  with assms show ?thesis by (simp add: ensure_main_task_tracked_def)
next
  case False
  have one: "(1 :: usize) < next_task_id tm"
    using assms by (simp add: sched_inv_def ids_ok_def word_less_nat_alt word_le_nat_alt)
  have live: "\<forall>t \<in> set (tasks tm). live t"
    using assms False by (auto simp: sched_inv_def kernel_ok_def tracking_ok_def)
  show ?thesis
    using assms False one live
    by (auto simp: sched_inv_defs ensure_main_task_tracked_def placeholder_main_def
        nth_Cons' less_Suc_eq_0_disj)
qed

lemma ensure_tracked [simp]: "main_task_tracked (ensure_main_task_tracked esp tm)"
  by (simp add: ensure_main_task_tracked_def)

lemma ensure_id [simp]: "main_task_tracked tm \<Longrightarrow> ensure_main_task_tracked esp tm = tm"
  by (simp add: ensure_main_task_tracked_def)

lemma wake_task_simps [simp]:
  "task_id (wake_task now t) = task_id t"
  "task_name (wake_task now t) = task_name t"
  "task_privilege (wake_task now t) = task_privilege t"
  "task_stack (wake_task now t) = task_stack t"
  "stack_ptr (wake_task now t) = stack_ptr t"
  "run_ticks (wake_task now t) = run_ticks t"
  "task_state t = Ready \<Longrightarrow> task_state (wake_task now t) = Ready"
  "task_state (wake_task now t) = Terminated \<longleftrightarrow> task_state t = Terminated"
  by (auto simp: wake_task_def split: task_state.splits)

lemma wake_task_Sleeping:
  "task_state t = Sleeping w \<Longrightarrow>
     task_state (wake_task now t) = (if w \<le> now then Ready else Sleeping w)"
  by (simp add: wake_task_def)

lemma wake_fields [simp]:
  "current_task_idx (wake_sleeping_tasks tm) = current_task_idx tm"
  "next_task_id (wake_sleeping_tasks tm) = next_task_id tm"
  "tick_count (wake_sleeping_tasks tm) = tick_count tm"
  "main_task_tracked (wake_sleeping_tasks tm) = main_task_tracked tm"
  "tasks (wake_sleeping_tasks tm) = map (wake_task (tick_count tm)) (tasks tm)"
  by (simp_all add: wake_sleeping_tasks_def)

lemma sched_inv_wake: "sched_inv tm \<Longrightarrow> sched_inv (wake_sleeping_tasks tm)"
  by (auto simp: sched_inv_defs comp_def)

text \<open>
  Under the invariant both clean-up passes and both index clamps do nothing, and
  \<open>schedule_next\<close> is the accounting of the current task followed by the selection.
\<close>

definition begin_tick :: "u32 \<Rightarrow> task_manager \<Rightarrow> task_manager" where
  "begin_tick esp tm =
     wake_sleeping_tasks (ensure_main_task_tracked esp (tm\<lparr>tick_count := tick_count tm + 1\<rparr>))"

lemma sched_inv_begin_tick: "sched_inv tm \<Longrightarrow> sched_inv (begin_tick esp tm)"
  by (simp add: begin_tick_def sched_inv_wake sched_inv_ensure sched_inv_tick)

lemma begin_tick_tracked [simp]: "main_task_tracked (begin_tick esp tm)"
  by (simp add: begin_tick_def)

lemma clamp_current_id [simp]:
  "current_task_idx tm < length (tasks tm) \<Longrightarrow> clamp_current tm = tm"
  by (simp add: clamp_current_def)

lemma clamp_current_fields [simp]:
  "tasks (clamp_current tm) = tasks tm"
  "next_task_id (clamp_current tm) = next_task_id tm"
  "tick_count (clamp_current tm) = tick_count tm"
  "main_task_tracked (clamp_current tm) = main_task_tracked tm"
  by (simp_all add: clamp_current_def)

definition all_live :: "task_manager \<Rightarrow> bool" where
  "all_live tm \<longleftrightarrow> (\<forall>t \<in> set (tasks tm). live t)"

lemma all_live_others: "all_live tm \<Longrightarrow> others_live tm"
  by (simp add: all_live_def others_live_def)

lemma sched_inv_pick:
  assumes "sched_inv tm" "all_live tm" "main_task_tracked tm" "i < length (tasks tm)"
  shows "sched_inv (tm\<lparr>current_task_idx := i\<rparr>)"
  using assms by (auto simp: sched_inv_defs all_live_def)

lemma remove_current_ids:
  assumes "ids_ok tm"
  shows "ids_ok (tm\<lparr>tasks := remove_at i (tasks tm)\<rparr>)"
  using assms set_remove_at [of i "tasks tm"]
  by (auto simp: ids_ok_def map_remove_at intro: distinct_remove_at)

lemma remove_user_kernel:
  assumes "kernel_ok tm" "i < length (tasks tm)" "task_privilege (tasks tm ! i) \<noteq> Kernel"
  shows "kernel_ok (tm\<lparr>tasks := remove_at i (tasks tm)\<rparr>)"
  using assms set_remove_at [of i "tasks tm"] remove_at_keeps [of i "tasks tm"]
  by (fastforce simp: kernel_ok_def)

text \<open>
  Removing the current task, which a user fault and a pending kill both do: the
  invariant survives when the task is no kernel task, and every remaining task is live.
\<close>

lemma remove_current_inv:
  assumes inv: "sched_inv tm" and tr: "main_task_tracked tm"
    and user: "task_privilege (tasks tm ! current_task_idx tm) \<noteq> Kernel"
  defines "tm' \<equiv> clamp_current (tm\<lparr>tasks := remove_at (current_task_idx tm) (tasks tm)\<rparr>)"
  shows "sched_inv tm'" and "all_live tm'" and "main_task_tracked tm'"
proof -
  let ?c = "current_task_idx tm" and ?ts = "tasks tm"
  have c: "?c < length ?ts" using inv by (rule sched_inv_bound)
  have ids: "ids_ok tm'"
    using inv remove_current_ids [of tm ?c]
    by (simp add: sched_inv_def tm'_def ids_ok_def)
  have ker: "kernel_ok tm'"
    using inv c user remove_user_kernel [of tm ?c]
    by (simp add: sched_inv_def tm'_def kernel_ok_def)
  show live: "all_live tm'"
    using inv c
    by (fastforce simp: tm'_def all_live_def sched_inv_def others_live_def in_set_conv_nth
        nth_remove_at split: if_splits)
  show tr': "main_task_tracked tm'" using tr by (simp add: tm'_def)
  have "0 < length (remove_at ?c ?ts)"
    using ker by (auto simp: kernel_ok_def tm'_def intro: length_pos_if_in_set)
  then have "tracking_ok tm'"
    using tr c by (auto simp: tracking_ok_def tm'_def clamp_current_def)
  with ids ker live show "sched_inv tm'"
    by (simp add: sched_inv_def all_live_others)
qed

text \<open>Charging a tick to the current task keeps identity, privilege and state of every task.\<close>

definition charge :: "u32 \<Rightarrow> task \<Rightarrow> task" where
  "charge esp t = t\<lparr>stack_ptr := esp, run_ticks := run_ticks t + 1\<rparr>"

lemma charge_simps [simp]:
  "task_id (charge esp t) = task_id t"
  "task_privilege (charge esp t) = task_privilege t"
  "task_state (charge esp t) = task_state t"
  by (simp_all add: charge_def)

lemma sched_inv_update_same:
  assumes "sched_inv tm" "i < length (tasks tm)"
    and "task_id t = task_id (tasks tm ! i)"
    and "task_privilege t = task_privilege (tasks tm ! i)"
    and "task_privilege t = Kernel \<Longrightarrow> task_state t = Ready"
    and "i \<noteq> current_task_idx tm \<Longrightarrow> live t"
    and "\<not> main_task_tracked tm \<Longrightarrow> task_state t = task_state (tasks tm ! i)"
  shows "sched_inv (tm\<lparr>tasks := (tasks tm)[i := t]\<rparr>)"
proof -
  have mem: "tasks tm ! i \<in> set (tasks tm)" using assms(2) by simp
  have sub: "x \<in> set ((tasks tm)[i := t]) \<Longrightarrow> x = t \<or> x \<in> set (tasks tm)" for x
    using set_update_subset_insert by fastforce
  have ids: "ids_ok (tm\<lparr>tasks := (tasks tm)[i := t]\<rparr>)"
    using assms(1,3) mem sub
    by (fastforce simp: sched_inv_def ids_ok_def map_update_same)
  have ex: "\<exists>t' \<in> set ((tasks tm)[i := t]). task_privilege t' = Kernel"
  proof -
    obtain j where j: "j < length (tasks tm)" "task_privilege (tasks tm ! j) = Kernel"
      using assms(1) by (auto simp: sched_inv_def kernel_ok_def in_set_conv_nth)
    then have "task_privilege ((tasks tm)[i := t] ! j) = Kernel"
      using assms(2,4) by (cases "i = j") auto
    with j(1) show ?thesis by (metis length_list_update nth_mem)
  qed
  have "kernel_ok (tm\<lparr>tasks := (tasks tm)[i := t]\<rparr>)"
    using assms(1,5) sub ex by (fastforce simp: sched_inv_def kernel_ok_def)
  moreover have "tracking_ok (tm\<lparr>tasks := (tasks tm)[i := t]\<rparr>)"
    using assms(1,3,4) sub mem by (fastforce simp: sched_inv_def tracking_ok_def)
  moreover have "others_live (tm\<lparr>tasks := (tasks tm)[i := t]\<rparr>)"
    using assms(1,2,6)
    by (auto simp: sched_inv_def others_live_def nth_list_update split: if_splits)
  ultimately show ?thesis using ids by (simp add: sched_inv_def)
qed

section \<open>One tick\<close>

definition settle :: "u32 \<Rightarrow> task_manager \<Rightarrow> task_manager" where
  "settle esp tm =
     (let tm1 = begin_tick esp tm; c = current_task_idx tm1; t = tasks tm1 ! c in
      if task_state t = Terminated
      then clamp_current (tm1\<lparr>tasks := remove_at c (tasks tm1)\<rparr>)
      else tm1\<lparr>tasks := (tasks tm1)[c := charge esp t]\<rparr>)"

lemma settle_inv:
  assumes "sched_inv tm"
  shows "sched_inv (settle esp tm)" and "all_live (settle esp tm)"
    and "main_task_tracked (settle esp tm)"
proof -
  let ?tm = "begin_tick esp tm"
  let ?c = "current_task_idx ?tm"
  have inv: "sched_inv ?tm" using assms by (rule sched_inv_begin_tick)
  have c: "?c < length (tasks ?tm)" using inv by (rule sched_inv_bound)
  have ker: "task_privilege (tasks ?tm ! ?c) = Kernel \<Longrightarrow> task_state (tasks ?tm ! ?c) = Ready"
    using inv c by (simp add: sched_inv_def kernel_ok_def)
  then have user: "\<not> live (tasks ?tm ! ?c) \<Longrightarrow> task_privilege (tasks ?tm ! ?c) = User"
    by (cases "task_privilege (tasks ?tm ! ?c)") simp_all
  have live: "i < length (tasks ?tm) \<Longrightarrow> i \<noteq> ?c \<Longrightarrow> live (tasks ?tm ! i)" for i
    using inv by (simp add: sched_inv_def others_live_def)
  show "sched_inv (settle esp tm)"
    using remove_current_inv(1) [OF inv] ker user
      sched_inv_update_same [OF inv c, of "charge esp (tasks ?tm ! ?c)"]
    by (auto simp: settle_def Let_def)
  show "all_live (settle esp tm)"
  proof (cases "live (tasks ?tm ! ?c)")
    case True
    with live have "\<forall>t \<in> set (tasks ?tm). live t" by (metis in_set_conv_nth)
    with True show ?thesis
      using set_update_subset_insert [of "tasks ?tm" ?c "charge esp (tasks ?tm ! ?c)"]
      by (auto simp: settle_def Let_def all_live_def)
  next
    case False
    then show ?thesis
      using remove_current_inv(2) [OF inv] user by (simp add: settle_def Let_def)
  qed
  show "main_task_tracked (settle esp tm)"
    by (auto simp: settle_def Let_def)
qed

lemma schedule_next_eq:
  assumes "sched_inv tm"
  shows "schedule_next esp tm =
    pick_next ''Scheduler stalled: no runnable tasks'' (settle esp tm)"
proof -
  let ?tm = "begin_tick esp tm" and ?s = "settle esp tm"
  have inv: "sched_inv ?tm" using assms by (rule sched_inv_begin_tick)
  note b = sched_inv_bound [OF inv] and ne = sched_inv_nonempty [OF inv]
  have clean: "cleanup_terminated_non_current ?tm = ?tm"
    using inv b by (simp add: cleanup_id sched_inv_def)
  have s: "sched_inv ?s" using assms by (rule settle_inv)
  have clean': "cleanup_terminated_non_current ?s = ?s"
    using s sched_inv_bound [OF s] by (simp add: cleanup_id sched_inv_def)
  have charge: "charge_current esp ?tm = Inr ?s"
    using sched_inv_nonempty [OF s]
    by (auto simp: charge_current_def settle_def Let_def charge_def)
  show ?thesis
    using sched_inv_nonempty [OF assms] clean clean' charge b ne
    by (simp add: schedule_next_def begin_tick_def [symmetric])
qed

lemma schedule_next_ok:
  assumes "sched_inv tm"
  obtains i where "next_ready_after (current_task_idx (settle esp tm)) (settle esp tm) = Some i"
    and "schedule_next esp tm =
      Inr (stack_ptr (tasks (settle esp tm) ! i), (settle esp tm)\<lparr>current_task_idx := i\<rparr>)"
    and "i < length (tasks (settle esp tm))"
    and "task_state (tasks (settle esp tm) ! i) = Ready"
proof -
  obtain t where "t \<in> set (tasks (settle esp tm))" "task_state t = Ready"
    using settle_inv(1) [OF assms] by (rule sched_inv_ready)
  then obtain i where
      "next_ready_after (current_task_idx (settle esp tm)) (settle esp tm) = Some i"
      "pick_next ''Scheduler stalled: no runnable tasks'' (settle esp tm) =
        Inr (stack_ptr (tasks (settle esp tm) ! i), (settle esp tm)\<lparr>current_task_idx := i\<rparr>)"
      "i < length (tasks (settle esp tm))" "task_state (tasks (settle esp tm) ! i) = Ready"
    by (rule pick_next_ready)
  with that schedule_next_eq [OF assms] show ?thesis by simp
qed

lemma schedule_next_inv:
  assumes "sched_inv tm" and "schedule_next esp tm = Inr (sp, tm')"
  shows "sched_inv tm'" and "all_live tm'" and "main_task_tracked tm'"
proof -
  obtain i where i: "schedule_next esp tm =
      Inr (stack_ptr (tasks (settle esp tm) ! i), (settle esp tm)\<lparr>current_task_idx := i\<rparr>)"
      "i < length (tasks (settle esp tm))"
    using assms(1) by (rule schedule_next_ok)
  have tm': "tm' = (settle esp tm)\<lparr>current_task_idx := i\<rparr>" using assms(2) i(1) by simp
  show "sched_inv tm'"
    unfolding tm' using settle_inv [OF assms(1)] i(2) by (intro sched_inv_pick)
  show "all_live tm'" and "main_task_tracked tm'"
    using settle_inv [OF assms(1)] by (simp_all add: tm' all_live_def)
qed

section \<open>The other operations keep the invariant\<close>

lemma sleep_inv:
  assumes "sched_inv tm"
  shows "sched_inv (snd (sleep_current_task esp n tm))"
proof -
  let ?tm = "ensure_main_task_tracked esp tm"
  have inv: "sched_inv ?tm" using assms by (rule sched_inv_ensure)
  show ?thesis
    using assms inv sched_inv_nonempty [OF assms] sched_inv_bound [OF inv]
    by (auto simp: sleep_current_task_def Let_def intro!: sched_inv_update_same)
qed

lemma drop_task_inv:
  assumes inv: "sched_inv tm" and i: "i < length (tasks tm)"
    and ne: "i \<noteq> current_task_idx tm" and user: "task_privilege (tasks tm ! i) = User"
  shows "sched_inv (drop_task i tm)" and "current_task_idx (drop_task i tm) < length (tasks (drop_task i tm))"
proof -
  let ?c = "current_task_idx tm" and ?tm = "drop_task i tm"
  have c: "?c < length (tasks tm)" using inv by (rule sched_inv_bound)
  have fields: "tasks ?tm = remove_at i (tasks tm)" "next_task_id ?tm = next_task_id tm"
    "main_task_tracked ?tm = main_task_tracked tm"
    "current_task_idx ?tm = (if i < ?c then ?c - 1 else ?c)"
    by (auto simp: drop_task_def Let_def)
  have tracked: "main_task_tracked tm"
    using inv user i by (auto simp: sched_inv_def tracking_ok_def)
  have "ids_ok ?tm" using inv remove_current_ids [of tm i] fields
    by (simp add: sched_inv_def ids_ok_def)
  moreover have "kernel_ok ?tm" using inv i user remove_user_kernel [of tm i] fields
    by (simp add: sched_inv_def kernel_ok_def)
  moreover show b: "current_task_idx ?tm < length (tasks ?tm)"
    using i c ne by (auto simp: fields)
  moreover have "tracking_ok ?tm" using b tracked by (simp add: tracking_ok_def fields)
  moreover have "others_live ?tm"
    using inv i c ne by (auto simp: others_live_def sched_inv_def fields nth_remove_at)
  ultimately show "sched_inv ?tm" by (simp add: sched_inv_def)
qed

lemma kill_inv:
  assumes "sched_inv tm"
  shows "sched_inv (snd (kill_task_by_pid pid tm))"
proof (cases "position (\<lambda>t. task_id t = pid) (tasks tm)")
  case None
  with assms show ?thesis by (simp add: kill_task_by_pid_def)
next
  case (Some i)
  then have i: "i < length (tasks tm)" by (rule position_SomeD)
  have tracked: "task_privilege (tasks tm ! i) = User \<Longrightarrow> main_task_tracked tm"
    using assms i by (auto simp: sched_inv_def tracking_ok_def)
  show ?thesis
    using Some assms i drop_task_inv [OF assms i] tracked
    by (auto simp: kill_task_by_pid_def Let_def intro!: sched_inv_update_same)
qed

text \<open>
  A page fault raised in user mode: before the first tick the running thread is the
  initial one, afterwards it is the current task.
\<close>

definition in_user_mode :: "task_manager \<Rightarrow> bool" where
  "in_user_mode tm \<longleftrightarrow>
     (main_task_tracked tm \<longrightarrow> task_privilege (tasks tm ! current_task_idx tm) = User)"

definition after_fault :: "u32 \<Rightarrow> task_manager \<Rightarrow> task_manager" where
  "after_fault esp tm =
     (let tm1 = ensure_main_task_tracked esp tm in
      wake_sleeping_tasks (clamp_current
        (tm1\<lparr>tasks := remove_at (current_task_idx tm1) (tasks tm1)\<rparr>)))"

lemma ensure_current_user:
  "in_user_mode tm \<Longrightarrow>
     task_privilege (tasks (ensure_main_task_tracked esp tm) !
       current_task_idx (ensure_main_task_tracked esp tm)) = User"
  by (simp add: in_user_mode_def ensure_main_task_tracked_def placeholder_main_def)

lemma after_fault_inv:
  assumes "sched_inv tm" and "in_user_mode tm"
  shows "sched_inv (after_fault esp tm)" and "all_live (after_fault esp tm)"
    and "main_task_tracked (after_fault esp tm)"
proof -
  let ?tm = "ensure_main_task_tracked esp tm"
  have inv: "sched_inv ?tm" using assms(1) by (rule sched_inv_ensure)
  have user: "task_privilege (tasks ?tm ! current_task_idx ?tm) \<noteq> Kernel"
    using ensure_current_user [OF assms(2)] by simp
  note r = remove_current_inv [OF inv ensure_tracked user]
  show "sched_inv (after_fault esp tm)" and "main_task_tracked (after_fault esp tm)"
    using r by (simp_all add: after_fault_def Let_def sched_inv_wake)
  show "all_live (after_fault esp tm)"
    using r(2) by (simp add: after_fault_def Let_def all_live_def)
qed

lemma fault_eq:
  assumes "sched_inv tm" and "in_user_mode tm"
  shows "terminate_current_user_task_from_fault esp tm =
    pick_next ''No runnable task after user fault termination'' (after_fault esp tm)"
proof -
  let ?tm = "ensure_main_task_tracked esp tm"
  have inv: "sched_inv ?tm" using assms(1) by (rule sched_inv_ensure)
  have s: "sched_inv (after_fault esp tm)" using assms by (rule after_fault_inv)
  have "cleanup_terminated_non_current (after_fault esp tm) = after_fault esp tm"
    using s sched_inv_bound [OF s] by (simp add: cleanup_id sched_inv_def)
  moreover have "remove_at (current_task_idx ?tm) (tasks ?tm) \<noteq> []"
    using sched_inv_nonempty [OF s] by (simp add: after_fault_def Let_def)
  ultimately show ?thesis
    using sched_inv_nonempty [OF inv] sched_inv_bound [OF inv] ensure_current_user [OF assms(2)]
    by (simp add: terminate_current_user_task_from_fault_def after_fault_def Let_def)
qed

lemma fault_ok:
  assumes "sched_inv tm" and "in_user_mode tm"
  obtains i where "terminate_current_user_task_from_fault esp tm =
      Inr (stack_ptr (tasks (after_fault esp tm) ! i), (after_fault esp tm)\<lparr>current_task_idx := i\<rparr>)"
    and "i < length (tasks (after_fault esp tm))"
    and "task_state (tasks (after_fault esp tm) ! i) = Ready"
proof -
  obtain t where "t \<in> set (tasks (after_fault esp tm))" "task_state t = Ready"
    using after_fault_inv(1) [OF assms] by (rule sched_inv_ready)
  then obtain i where
      "pick_next ''No runnable task after user fault termination'' (after_fault esp tm) =
        Inr (stack_ptr (tasks (after_fault esp tm) ! i), (after_fault esp tm)\<lparr>current_task_idx := i\<rparr>)"
      "i < length (tasks (after_fault esp tm))"
      "task_state (tasks (after_fault esp tm) ! i) = Ready"
    by (rule pick_next_ready)
  with that fault_eq [OF assms] show ?thesis by simp
qed

lemma fault_panics_in_kernel_mode:
  assumes "sched_inv tm" and "\<not> in_user_mode tm"
  shows "terminate_current_user_task_from_fault esp tm =
    Inl (ExplicitPanic ''User-fault path invoked while current task is not user'')"
  using assms sched_inv_nonempty [OF assms(1)] sched_inv_bound [OF assms(1)]
  by (simp add: terminate_current_user_task_from_fault_def in_user_mode_def Let_def)

lemma fault_inv:
  assumes "sched_inv tm" and "terminate_current_user_task_from_fault esp tm = Inr (sp, tm')"
  shows "sched_inv tm'"
proof -
  have user: "in_user_mode tm"
    using fault_panics_in_kernel_mode [OF assms(1)] assms(2) by (cases "in_user_mode tm") auto
  obtain i where i: "terminate_current_user_task_from_fault esp tm =
      Inr (stack_ptr (tasks (after_fault esp tm) ! i), (after_fault esp tm)\<lparr>current_task_idx := i\<rparr>)"
      "i < length (tasks (after_fault esp tm))"
    using assms(1) user by (rule fault_ok)
  with assms(2) have "tm' = (after_fault esp tm)\<lparr>current_task_idx := i\<rparr>" by simp
  with sched_inv_pick after_fault_inv [OF assms(1) user] i(2) show ?thesis by blast
qed

section \<open>Creating tasks\<close>

lemma push32_at:
  assumes "unat base + n + 4 < 2 ^ 32"
  shows "push32 base v (base + of_nat (n + 4), xs) = Inr (base + of_nat n, store_le xs n v)"
proof -
  have n: "unat (of_nat n :: u32) = n" "unat (of_nat (n + 4) :: u32) = n + 4"
    using assms by (simp_all add: unat_of_nat del: of_nat_add)
  then have sp: "unat (base + of_nat (n + 4)) = unat base + (n + 4)"
    using assms by (simp add: unat_plus_noov del: of_nat_add)
  have "sub_ov (base + of_nat (n + 4)) 4 = Inr (base + of_nat n)"
    using sp by (auto simp: sub_ov_def word_le_nat_alt)
  then show ?thesis using n(1) by (simp add: push32_def ptr_write_def)
qed

lemma push_zeros_at:
  assumes "unat base + n + 4 * k < 2 ^ 32"
  shows "\<exists>ys. push_zeros k base (base + of_nat (n + 4 * k), xs) = Inr (base + of_nat n, ys) \<and>
    length ys = length xs \<and> (\<forall>m. n + 4 * k \<le> m \<longrightarrow> load_le ys m = load_le xs m) \<and>
    (n + 4 * k \<le> length xs \<longrightarrow> (\<forall>i < k. load_le ys (n + 4 * i) = 0))"
  using assms
proof (induction k arbitrary: xs)
  case 0
  then show ?case by simp
next
  case (Suc k)
  let ?xs = "store_le xs (n + 4 * k) 0"
  have step: "push32 base 0 (base + of_nat (n + 4 * Suc k), xs) = Inr (base + of_nat (n + 4 * k), ?xs)"
    using push32_at [of base "n + 4 * k" 0 xs] Suc.prems by (simp add: algebra_simps)
  obtain ys where ys: "push_zeros k base (base + of_nat (n + 4 * k), ?xs) = Inr (base + of_nat n, ys)"
      "length ys = length ?xs" "\<forall>m. n + 4 * k \<le> m \<longrightarrow> load_le ys m = load_le ?xs m"
      "n + 4 * k \<le> length ?xs \<longrightarrow> (\<forall>i < k. load_le ys (n + 4 * i) = 0)"
    using Suc.IH [of ?xs] Suc.prems by auto
  have "load_le ys m = load_le xs m" if "n + 4 * Suc k \<le> m" for m
    using ys(3) that by (simp add: load_store_apart)
  moreover have "load_le ys (n + 4 * i) = 0" if "n + 4 * Suc k \<le> length xs" "i < Suc k" for i
    using ys(3,4) that by (cases "i = k") (auto simp: load_store_same)
  ultimately show ?case using step ys(1,2) by (auto intro!: exI [of _ ys])
qed

lemma task_new_frame:
  assumes "unat base + STACK_SIZE < 2 ^ 32"
  shows "\<exists>st. task_new tid name priv entry base cs =
      Inr \<lparr>task_id = tid, task_name = name, task_privilege = priv, task_state = Ready,
           task_stack = st, stack_ptr = base + of_nat (STACK_SIZE - 44), run_ticks = 0\<rparr> \<and>
    length st = STACK_SIZE \<and>
    (\<forall>i < 8. load_le st (STACK_SIZE - 44 + 4 * i) = 0) \<and>
    load_le st (STACK_SIZE - 12) = entry \<and>
    load_le st (STACK_SIZE - 8) = ucast cs \<and>
    load_le st (STACK_SIZE - 4) = 0x202"
proof -
  let ?s0 = "replicate STACK_SIZE 0 :: u8 list"
  let ?s1 = "store_le ?s0 (STACK_SIZE - 4) 0x202"
  let ?s2 = "store_le ?s1 (STACK_SIZE - 8) (ucast cs)"
  let ?s3 = "store_le ?s2 (STACK_SIZE - 12) entry"
  have b: "unat base + 8192 < 2 ^ 32" using assms by (simp add: STACK_SIZE_def)
  have top: "add_ov base (of_nat STACK_SIZE) = Inr (base + of_nat (8188 + 4))"
    using b by (simp add: add_ov_def STACK_SIZE_def)
  have p1: "push32 base v (base + of_nat (8188 + 4), xs) = Inr (base + of_nat (8184 + 4), store_le xs 8188 v)"
    and p2: "push32 base v (base + of_nat (8184 + 4), xs) = Inr (base + of_nat (8180 + 4), store_le xs 8184 v)"
    and p3: "push32 base v (base + of_nat (8180 + 4), xs) = Inr (base + of_nat (8148 + 4 * 8), store_le xs 8180 v)"
    for v xs
    using push32_at [of base 8188 v xs] push32_at [of base 8184 v xs] push32_at [of base 8180 v xs] b
    by simp_all
  obtain st where st: "push_zeros 8 base (base + of_nat (8148 + 4 * 8), ?s3) = Inr (base + of_nat 8148, st)"
      "length st = length ?s3" "\<forall>m. 8148 + 4 * 8 \<le> m \<longrightarrow> load_le st m = load_le ?s3 m"
      "8148 + 4 * 8 \<le> length ?s3 \<longrightarrow> (\<forall>i < 8. load_le st (8148 + 4 * i) = 0)"
    using push_zeros_at [of base 8148 8 ?s3] b by auto
  show ?thesis
  proof (intro exI conjI)
    show "task_new tid name priv entry base cs =
      Inr \<lparr>task_id = tid, task_name = name, task_privilege = priv, task_state = Ready,
           task_stack = st, stack_ptr = base + of_nat (STACK_SIZE - 44), run_ticks = 0\<rparr>"
      unfolding task_new_def Let_def top rbind_Inr p1 p2 p3
      using st(1) by (simp add: STACK_SIZE_def)
    show "length st = STACK_SIZE" using st(2) by simp
    show "\<forall>i < 8. load_le st (STACK_SIZE - 44 + 4 * i) = 0"
      using st(4) by (simp add: STACK_SIZE_def)
    show "load_le st (STACK_SIZE - 12) = entry" "load_le st (STACK_SIZE - 8) = ucast cs"
      "load_le st (STACK_SIZE - 4) = 0x202"
      using st(3) by (simp_all add: STACK_SIZE_def load_store_same load_store_apart)
  qed
qed

lemma task_new_fields:
  assumes "task_new tid name priv entry base cs = Inr t"
  shows "task_id t = tid" "task_name t = name" "task_privilege t = priv" "task_state t = Ready"
  using assms by (auto simp: task_new_def rbind_eq_Inr_iff Let_def)

lemma register_tasks:
  assumes "register_named_task name entry base cs tm = Inr tm'"
  obtains t where "tm' = tm\<lparr>next_task_id := next_task_id tm + 1, tasks := tasks tm @ [t]\<rparr>"
    and "task_id t = next_task_id tm" "task_privilege t = Kernel" "task_state t = Ready"
    and "unat (next_task_id tm) + 1 < 2 ^ 32"
proof -
  from assms obtain t n where t: "task_new (next_task_id tm) name Kernel entry base cs = Inr t"
      and n: "add_ov (next_task_id tm) 1 = Inr n"
      and tm': "tm' = tm\<lparr>next_task_id := n, tasks := tasks tm @ [t]\<rparr>"
    by (auto simp: register_named_task_def rbind_eq_Inr_iff)
  from n have "unat (next_task_id tm) + 1 < 2 ^ 32" "n = next_task_id tm + 1"
    by (auto simp: add_ov_eq_Inr)
  with that [of t] tm' task_new_fields [OF t] show thesis by simp
qed

lemma register_inv:
  assumes "sched_inv tm" and "register_named_task name entry base cs tm = Inr tm'"
  shows "sched_inv tm'"
proof -
  obtain t where t: "tm' = tm\<lparr>next_task_id := next_task_id tm + 1, tasks := tasks tm @ [t]\<rparr>"
      "task_id t = next_task_id tm" "task_privilege t = Kernel" "task_state t = Ready"
      "unat (next_task_id tm) + 1 < 2 ^ 32"
    using assms(2) by (rule register_tasks)
  have lt: "next_task_id tm < next_task_id tm + 1"
    using t(5) by (simp add: word_less_nat_alt unat_plus_noov)
  have two: "2 \<le> next_task_id tm" using assms(1) by (simp add: sched_inv_def ids_ok_def)
  have old: "\<forall>u \<in> set (tasks tm). 0 < task_id u \<and> task_id u < next_task_id tm"
    using assms(1) by (simp add: sched_inv_def ids_ok_def)
  have ids: "ids_ok tm'"
    using assms(1) t(2) lt two old
    by (auto simp: t(1) sched_inv_def ids_ok_def word_less_nat_alt word_le_nat_alt intro: less_trans)
  have "1 \<noteq> task_id t" using two t(2) by (auto simp: word_le_nat_alt)
  with assms(1) t(3) have "tracking_ok tm'"
    by (auto simp: t(1) sched_inv_def tracking_ok_def)
  moreover have "kernel_ok tm'" using assms(1) t(3,4) by (auto simp: t(1) sched_inv_def kernel_ok_def)
  moreover have "others_live tm'"
    using assms(1) t(4) by (auto simp: t(1) sched_inv_def others_live_def nth_append less_Suc_eq)
  ultimately show ?thesis using ids by (simp add: sched_inv_def)
qed

lemma register_first_inv:
  assumes "register_named_task name entry base cs task_manager_new = Inr tm"
  shows "sched_inv tm"
proof -
  obtain t where t: "tm = task_manager_new\<lparr>next_task_id := next_task_id task_manager_new + 1,
        tasks := tasks task_manager_new @ [t]\<rparr>"
      "task_id t = next_task_id task_manager_new" "task_privilege t = Kernel" "task_state t = Ready"
    using assms by (rule register_tasks)
  then show ?thesis by (simp add: sched_inv_defs task_manager_new_def)
qed

section \<open>Executions\<close>

text \<open>
  The life of the task manager after \<^verbatim>\<open>kernel_main\<close> registered its first thread:
  timer ticks, sleeping through system calls, kills from the shell, user page faults and
  further registrations, in any order. A step whose operation panics does not exist.
\<close>

inductive sched_step :: "task_manager \<Rightarrow> task_manager \<Rightarrow> bool" where
  tick: "schedule_next esp tm = Inr (sp, tm') \<Longrightarrow> sched_step tm tm'"
| sleep: "sleep_current_task esp n tm = (b, tm') \<Longrightarrow> sched_step tm tm'"
| kill: "kill_task_by_pid pid tm = (r, tm') \<Longrightarrow> sched_step tm tm'"
| fault: "terminate_current_user_task_from_fault esp tm = Inr (sp, tm') \<Longrightarrow> sched_step tm tm'"
| register: "register_named_task name entry base cs tm = Inr tm' \<Longrightarrow> sched_step tm tm'"

inductive sched_reachable :: "task_manager \<Rightarrow> bool" where
  boot: "register_named_task name entry base cs task_manager_new = Inr tm \<Longrightarrow> sched_reachable tm"
| step: "sched_reachable tm \<Longrightarrow> sched_step tm tm' \<Longrightarrow> sched_reachable tm'"

lemma sched_step_inv: "sched_step tm tm' \<Longrightarrow> sched_inv tm \<Longrightarrow> sched_inv tm'"
proof (induction rule: sched_step.induct)
  case (sleep esp n tm b tm')
  then show ?case using sleep_inv [of tm esp n] by simp
next
  case (kill pid tm r tm')
  then show ?case using kill_inv [of tm pid] by simp
qed (auto intro: schedule_next_inv fault_inv register_inv)

lemma sched_reachable_inv: "sched_reachable tm \<Longrightarrow> sched_inv tm"
  by (induction rule: sched_reachable.induct) (auto intro: register_first_inv sched_step_inv)

text \<open>The identifiers of the kernel tasks, in the order of the task list.\<close>

definition kernel_ids :: "task_manager \<Rightarrow> usize list" where
  "kernel_ids tm = map task_id (filter (\<lambda>t. task_privilege t = Kernel) (tasks tm))"

lemma kernel_ids_update:
  "i < length (tasks tm) \<Longrightarrow> task_id t = task_id (tasks tm ! i) \<Longrightarrow>
   task_privilege t = task_privilege (tasks tm ! i) \<Longrightarrow>
   kernel_ids (tm\<lparr>tasks := (tasks tm)[i := t]\<rparr>) = kernel_ids tm"
  by (simp add: kernel_ids_def map_filter_update)

lemma kernel_ids_remove:
  "i < length (tasks tm) \<Longrightarrow> task_privilege (tasks tm ! i) = User \<Longrightarrow>
   kernel_ids (tm\<lparr>tasks := remove_at i (tasks tm)\<rparr>) = kernel_ids tm"
  by (simp add: kernel_ids_def filter_remove_at)

lemma kernel_ids_simps [simp]:
  "kernel_ids (wake_sleeping_tasks tm) = kernel_ids tm"
  "kernel_ids (ensure_main_task_tracked esp tm) = kernel_ids tm"
  "kernel_ids (clamp_current tm) = kernel_ids tm"
  "kernel_ids (tm\<lparr>tick_count := n\<rparr>) = kernel_ids tm"
  "kernel_ids (tm\<lparr>current_task_idx := i\<rparr>) = kernel_ids tm"
  by (simp_all add: kernel_ids_def filter_map_same ensure_main_task_tracked_def placeholder_main_def)

lemma kernel_ids_drop:
  "i < length (tasks tm) \<Longrightarrow> task_privilege (tasks tm ! i) = User \<Longrightarrow>
   kernel_ids (drop_task i tm) = kernel_ids tm"
  by (simp add: drop_task_def Let_def kernel_ids_remove)

lemma kernel_ids_settle:
  assumes "sched_inv tm"
  shows "kernel_ids (settle esp tm) = kernel_ids tm"
proof -
  let ?tm = "begin_tick esp tm"
  have inv: "sched_inv ?tm" using assms by (rule sched_inv_begin_tick)
  have c: "current_task_idx ?tm < length (tasks ?tm)" using inv by (rule sched_inv_bound)
  have "task_privilege (tasks ?tm ! current_task_idx ?tm) = Kernel \<Longrightarrow>
      task_state (tasks ?tm ! current_task_idx ?tm) = Ready"
    using inv c by (simp add: sched_inv_def kernel_ok_def)
  then have user: "\<not> live (tasks ?tm ! current_task_idx ?tm) \<Longrightarrow>
      task_privilege (tasks ?tm ! current_task_idx ?tm) = User"
    by (cases "task_privilege (tasks ?tm ! current_task_idx ?tm)") simp_all
  have "kernel_ids (settle esp tm) = kernel_ids ?tm"
    using c user by (auto simp: settle_def Let_def kernel_ids_update kernel_ids_remove)
  then show ?thesis by (simp add: begin_tick_def)
qed

lemma kernel_ids_step:
  assumes "sched_step tm tm'" and "sched_inv tm"
  shows "\<exists>new. kernel_ids tm' = kernel_ids tm @ new"
  using assms
proof (induction rule: sched_step.induct)
  case (tick esp tm sp tm')
  then show ?case
    by (metis append_Nil2 kernel_ids_settle kernel_ids_simps(5) old.sum.inject(2) prod.inject
        schedule_next_ok)
next
  case (sleep esp n tm b tm')
  have "kernel_ids (snd (sleep_current_task esp n tm)) = kernel_ids tm"
    by (auto simp: sleep_current_task_def Let_def kernel_ids_update)
  with sleep show ?case by simp
next
  case (kill pid tm r tm')
  have "kernel_ids (snd (kill_task_by_pid pid tm)) = kernel_ids tm"
    by (auto simp: kill_task_by_pid_def Let_def kernel_ids_update kernel_ids_drop
        dest: position_SomeD split: option.splits)
  with kill show ?case by simp
next
  case (fault esp tm sp tm')
  have user: "in_user_mode tm"
    using fault_panics_in_kernel_mode [OF fault.prems] fault.hyps by (cases "in_user_mode tm") auto
  have "kernel_ids (after_fault esp tm) = kernel_ids tm"
    using sched_inv_bound [OF sched_inv_ensure [OF fault.prems]] ensure_current_user [OF user]
    by (simp add: after_fault_def Let_def kernel_ids_remove)
  then show ?case
    using fault_ok [OF fault.prems user, of esp] fault.hyps
    by (metis append_Nil2 kernel_ids_simps(5) old.sum.inject(2) prod.inject)
next
  case (register name entry base cs tm tm')
  then show ?case by (auto elim!: register_tasks simp: kernel_ids_def)
qed

section \<open>What a tick does to a task, and how long a ready task waits\<close>

lemma settle_live_current:
  assumes "main_task_tracked tm" and "current_task_idx tm < length (tasks tm)"
    and "live (tasks tm ! current_task_idx tm)"
  shows "settle esp tm =
    (let now = tick_count tm + 1; ts = map (wake_task now) (tasks tm); c = current_task_idx tm
     in tm\<lparr>tick_count := now, tasks := ts[c := charge esp (ts ! c)]\<rparr>)"
  using assms by (simp add: settle_def begin_tick_def wake_sleeping_tasks_def Let_def)

lemma begin_tick_tasks:
  "tasks (begin_tick esp tm) =
     map (wake_task (tick_count tm + 1)) (tasks (ensure_main_task_tracked esp tm))"
  "length (tasks (begin_tick esp tm)) \<le> length (tasks tm) + 1"
  by (simp_all add: begin_tick_def ensure_main_task_tracked_def)

lemma begin_tick_task:
  assumes "t \<in> set (tasks tm)"
  shows "wake_task (tick_count tm + 1) t \<in> set (tasks (begin_tick esp tm))"
  using assms by (auto simp: begin_tick_tasks ensure_main_task_tracked_def)

lemma settle_task:
  assumes "t \<in> set (tasks tm)" and "live t" and "sched_inv tm"
  shows "\<exists>t' \<in> set (tasks (settle esp tm)).
    task_id t' = task_id t \<and> task_privilege t' = task_privilege t \<and>
    task_state t' = task_state (wake_task (tick_count tm + 1) t)"
proof -
  let ?tm = "begin_tick esp tm" and ?w = "wake_task (tick_count tm + 1) t"
  let ?c = "current_task_idx ?tm"
  obtain i where i: "i < length (tasks ?tm)" "tasks ?tm ! i = ?w"
    using begin_tick_task [OF assms(1)] by (metis in_set_conv_nth)
  have w: "live ?w" using assms(2) by simp
  show ?thesis
  proof (cases "live (tasks ?tm ! ?c)")
    case True
    have "(tasks (settle esp tm)) ! i = (if i = ?c then charge esp ?w else ?w)"
      using True i by (auto simp: settle_def Let_def nth_list_update)
    moreover have "i < length (tasks (settle esp tm))"
      using True i(1) by (simp add: settle_def Let_def)
    ultimately show ?thesis by (metis charge_simps nth_mem wake_task_simps(1,3))
  next
    case False
    then have "?w \<noteq> tasks ?tm ! ?c" using w by metis
    with False have "?w \<in> set (tasks (settle esp tm))"
      using sched_inv_bound [OF sched_inv_begin_tick [OF assms(3)]] nth_mem [OF i(1)]
      by (auto simp: settle_def Let_def i(2) intro!: remove_at_keeps)
    then show ?thesis by (metis wake_task_simps(1,3))
  qed
qed

text \<open>A run of timer interrupts, each with the stack pointer it interrupts.\<close>

fun ticks :: "u32 list \<Rightarrow> task_manager \<Rightarrow> task_manager run" where
  "ticks [] tm = Ret tm"
| "ticks (esp # es) tm = rbind (schedule_next esp tm) (\<lambda>r. ticks es (snd r))"

lemma tick_live:
  assumes inv: "sched_inv tm" and tr: "main_task_tracked tm"
    and lv: "live (tasks tm ! current_task_idx tm)"
  defines "now \<equiv> tick_count tm + 1" and "c \<equiv> current_task_idx tm" and "n \<equiv> length (tasks tm)"
  defines "ts \<equiv> map (wake_task now) (tasks tm)"
  obtains off where "1 \<le> off" "off \<le> n" "ready_at ts ((c + off) mod n)"
    and "\<forall>k. 1 \<le> k \<and> k < off \<longrightarrow> \<not> ready_at ts ((c + k) mod n)"
    and "schedule_next esp tm =
      Inr (stack_ptr (ts[c := charge esp (ts ! c)] ! ((c + off) mod n)),
           tm\<lparr>tick_count := now, tasks := ts[c := charge esp (ts ! c)],
              current_task_idx := (c + off) mod n\<rparr>)"
proof -
  have c: "c < n" using inv by (simp add: c_def n_def sched_inv_bound)
  let ?ts = "ts[c := charge esp (ts ! c)]"
  have s: "settle esp tm = tm\<lparr>tick_count := now, tasks := ?ts\<rparr>"
    using settle_live_current [OF tr _ lv, of esp] c
    by (simp add: Let_def now_def ts_def c_def n_def)
  have st: "task_state (?ts ! j) = task_state (ts ! j)" if "j < n" for j
    using that by (cases "j = c") (simp_all add: ts_def n_def)
  have mod: "k mod n < n" for k using c by simp
  obtain i where i: "next_ready_after c (tm\<lparr>tick_count := now, tasks := ?ts\<rparr>) = Some i"
      and sn: "schedule_next esp tm =
        Inr (stack_ptr (?ts ! i), tm\<lparr>tick_count := now, tasks := ?ts, current_task_idx := i\<rparr>)"
    using schedule_next_ok [OF inv, of esp] by (auto simp: s c_def)
  from i obtain off where "1 \<le> off" "off \<le> n" "i = (c + off) mod n" "ready_at ?ts i"
      "\<forall>k. 1 \<le> k \<and> k < off \<longrightarrow> \<not> ready_at ?ts ((c + k) mod n)"
    by (auto simp: next_ready_after_Some ts_def n_def)
  with sn that [of off] show thesis by (simp add: st mod)
qed

lemma wait_bound:
  assumes "sched_inv tm" "main_task_tracked tm" "all_live tm"
    and "i < length (tasks tm)" "task_state (tasks tm ! i) = Ready"
    and "1 \<le> d" "d \<le> length es" "(current_task_idx tm + d) mod length (tasks tm) = i"
    and "d \<le> length (tasks tm)"
  shows "\<exists>k tm'. 1 \<le> k \<and> k \<le> d \<and> ticks (take k es) tm = Inr tm' \<and>
    current_task_idx tm' = i \<and> map task_id (tasks tm') = map task_id (tasks tm)"
  using assms
proof (induction d arbitrary: tm es rule: less_induct)
  case (less d)
  let ?c = "current_task_idx tm" and ?n = "length (tasks tm)"
  let ?ts = "map (wake_task (tick_count tm + 1)) (tasks tm)"
  obtain e es' where es: "es = e # es'" using less.prems(6,7) by (cases es) auto
  have c: "?c < ?n" using less.prems(1) by (rule sched_inv_bound)
  then have "live (tasks tm ! ?c)" using less.prems(3) by (simp add: all_live_def)
  then obtain off where off: "1 \<le> off" "off \<le> ?n" "ready_at ?ts ((?c + off) mod ?n)"
      "\<forall>k. 1 \<le> k \<and> k < off \<longrightarrow> \<not> ready_at ?ts ((?c + k) mod ?n)"
      and sn: "schedule_next e tm =
        Inr (stack_ptr (?ts[?c := charge e (?ts ! ?c)] ! ((?c + off) mod ?n)),
           tm\<lparr>tick_count := tick_count tm + 1, tasks := ?ts[?c := charge e (?ts ! ?c)],
              current_task_idx := (?c + off) mod ?n\<rparr>)"
    using tick_live [OF less.prems(1,2)] by metis
  let ?tm = "tm\<lparr>tick_count := tick_count tm + 1, tasks := ?ts[?c := charge e (?ts ! ?c)],
              current_task_idx := (?c + off) mod ?n\<rparr>"
  have le: "off \<le> d"
    using off(4) less.prems(4-6,8) by (metis is_ready_iff leI nth_map wake_task_simps(7))
  have ids: "map task_id (tasks ?tm) = map task_id (tasks tm)"
    by (simp add: map_update_same comp_def)
  show ?case
  proof (cases "off = d")
    case True
    then show ?thesis
      using sn ids es less.prems(6,8) by (auto intro!: exI [of _ 1])
  next
    case False
    have inv: "sched_inv ?tm" "all_live ?tm" "main_task_tracked ?tm"
      using schedule_next_inv [OF less.prems(1) sn] by simp_all
    have ready: "task_state (tasks ?tm ! i) = Ready"
      using less.prems(4,5) by (cases "i = ?c") simp_all
    have "((?c + off) mod ?n + (d - off)) mod ?n = (?c + off + (d - off)) mod ?n"
      by (rule mod_add_left_eq)
    then have "((?c + off) mod ?n + (d - off)) mod ?n = i"
      using le less.prems(8) by simp
    then have dist: "(current_task_idx ?tm + (d - off)) mod length (tasks ?tm) = i" by simp
    have smaller: "d - off < d" and pos: "1 \<le> d - off" and enough: "d - off \<le> length es'"
      and below: "d - off \<le> length (tasks ?tm)" and i: "i < length (tasks ?tm)"
      using le False off(1) less.prems(4,6,7,9) es by simp_all
    obtain k tm' where "1 \<le> k" "k \<le> d - off" "ticks (take k es') ?tm = Inr tm'"
        "current_task_idx tm' = i" "map task_id (tasks tm') = map task_id (tasks ?tm)"
      using less.IH [OF smaller inv(1,3,2) i ready pos enough dist below] by blast
    then show ?thesis
      using sn ids es le off(1) by (intro exI [of _ "Suc k"]) auto
  qed
qed

section \<open>Killing a task\<close>

lemma kill_pid_unique:
  assumes "sched_inv tm" and "position (\<lambda>t. task_id t = pid) (tasks tm) = Some i"
  shows "i < length (tasks tm)" and "task_id (tasks tm ! i) = pid" and "pid \<noteq> 0"
    and "t \<in> set (tasks tm) \<Longrightarrow> task_id t = pid \<Longrightarrow> t = tasks tm ! i"
proof -
  show i: "i < length (tasks tm)" "task_id (tasks tm ! i) = pid"
    using assms(2) by (auto dest: position_SomeD)
  have "0 < task_id (tasks tm ! i)"
    using nth_mem [OF i(1)] assms(1) by (auto simp: sched_inv_def ids_ok_def)
  then show "pid \<noteq> 0" using i(2) by auto
  have "distinct (map task_id (tasks tm))" using assms(1) by (simp add: sched_inv_def ids_ok_def)
  then show "t \<in> set (tasks tm) \<Longrightarrow> task_id t = pid \<Longrightarrow> t = tasks tm ! i"
    using i by (metis distinct_map inj_onD nth_mem)
qed

text \<open>A marked current task is removed by the next tick.\<close>

lemma marked_task_removed:
  assumes inv: "sched_inv tm" and user: "task_privilege (tasks tm ! current_task_idx tm) = User"
    and dead: "task_state (tasks tm ! current_task_idx tm) = Terminated"
  shows "\<exists>sp tm'. schedule_next esp tm = Inr (sp, tm') \<and>
    map task_id (tasks tm') = remove1 (task_id (tasks tm ! current_task_idx tm)) (map task_id (tasks tm))"
proof -
  let ?c = "current_task_idx tm" and ?ts = "map (wake_task (tick_count tm + 1)) (tasks tm)"
  have c: "?c < length (tasks tm)" using inv by (rule sched_inv_bound)
  have tr: "main_task_tracked tm"
    using inv user nth_mem [OF c] by (force simp: sched_inv_def tracking_ok_def)
  have dist: "distinct (map task_id (tasks tm))" using inv by (simp add: sched_inv_def ids_ok_def)
  have "tasks (settle esp tm) = remove_at ?c ?ts"
    using c dead tr by (simp add: settle_def begin_tick_def Let_def)
  then have "map task_id (tasks (settle esp tm)) = remove1 (task_id (tasks tm ! ?c)) (map task_id (tasks tm))"
    using c dist by (simp add: map_remove_at comp_def remove_at_distinct)
  then show ?thesis using schedule_next_ok [OF inv, of esp] by fastforce
qed

lemma kill_drops_other:
  assumes inv: "sched_inv tm" and pos: "position (\<lambda>t. task_id t = pid) (tasks tm) = Some i"
    and user: "task_privilege (tasks tm ! i) = User" and ne: "i \<noteq> current_task_idx tm"
  shows "kill_task_by_pid pid tm = (Inr KilledNow, drop_task i tm)"
    and "map task_id (tasks (drop_task i tm)) = remove1 pid (map task_id (tasks tm))"
    and "tasks (drop_task i tm) ! current_task_idx (drop_task i tm) = tasks tm ! current_task_idx tm"
proof -
  let ?c = "current_task_idx tm"
  note i = kill_pid_unique(1-3) [OF inv pos]
  have c: "?c < length (tasks tm)" using inv by (rule sched_inv_bound)
  have d: "tasks (drop_task i tm) = remove_at i (tasks tm)"
    "current_task_idx (drop_task i tm) = (if i < ?c then ?c - 1 else ?c)"
    by (auto simp: drop_task_def Let_def)
  show "kill_task_by_pid pid tm = (Inr KilledNow, drop_task i tm)"
    using drop_task_inv(2) [OF inv i(1) ne user] pos i user ne
    by (simp add: kill_task_by_pid_def Let_def)
  show "map task_id (tasks (drop_task i tm)) = remove1 pid (map task_id (tasks tm))"
    unfolding d using pos by (rule position_remove1)
  show "tasks (drop_task i tm) ! current_task_idx (drop_task i tm) = tasks tm ! ?c"
    using i c ne by (auto simp: d nth_remove_at)
qed

lemma kill_missing:
  assumes "position (\<lambda>t. task_id t = pid) (tasks tm) = None"
  shows "\<exists>e. kill_task_by_pid pid tm = (Inl e, tm)" and "\<forall>t \<in> set (tasks tm). task_id t \<noteq> pid"
proof -
  show "\<exists>e. kill_task_by_pid pid tm = (Inl e, tm)"
    using assms by (simp add: kill_task_by_pid_def)
  show "\<forall>t \<in> set (tasks tm). task_id t \<noteq> pid"
    using assms by (simp add: position_None_iff)
qed

section \<open>Concrete task managers for the witnesses\<close>

definition demo_user :: "task_state \<Rightarrow> task" where
  "demo_user s = \<lparr>task_id = 1, task_name = ''user_main'', task_privilege = User, task_state = s,
     task_stack = [], stack_ptr = 0x500, run_ticks = 7\<rparr>"

definition demo_kernel :: task where
  "demo_kernel = \<lparr>task_id = 2, task_name = ''background_thread'', task_privilege = Kernel,
     task_state = Ready, task_stack = [], stack_ptr = 0x900, run_ticks = 3\<rparr>"

definition demo_tm :: "task_state \<Rightarrow> nat \<Rightarrow> task_manager" where
  "demo_tm s cur = \<lparr>tasks = [demo_user s, demo_kernel], current_task_idx = cur,
     next_task_id = 3, tick_count = 10, main_task_tracked = True\<rparr>"

lemmas demo_defs = demo_tm_def demo_user_def demo_kernel_def

lemma demo_sel [simp]:
  "tasks (demo_tm s cur) = [demo_user s, demo_kernel]" "current_task_idx (demo_tm s cur) = cur"
  "tick_count (demo_tm s cur) = 10" "main_task_tracked (demo_tm s cur)"
  "task_state (demo_user s) = s" "task_state demo_kernel = Ready"
  "task_id (demo_user s) = 1" "task_id demo_kernel = 2"
  "task_privilege (demo_user s) = User" "task_privilege demo_kernel = Kernel"
  "run_ticks (demo_user s) = 7" "stack_ptr demo_kernel = 0x900"
  "wake_task now (demo_user Ready) = demo_user Ready" "wake_task now demo_kernel = demo_kernel"
  by (simp_all add: demo_defs wake_task_def)

lemma demo_inv: "s \<noteq> Terminated \<Longrightarrow> cur < 2 \<Longrightarrow> sched_inv (demo_tm s cur)"
  by (auto simp: sched_inv_defs demo_defs less_2_cases_iff less_Suc_eq)

lemma demo_reachable: "\<exists>tm. sched_reachable tm \<and> length (tasks tm) = 1"
proof -
  obtain t where "task_new 2 ''background_thread'' Kernel 0x101000 0x200000 8 = Inr t"
    using task_new_frame [of "0x200000" 2 "''background_thread''" Kernel "0x101000" 8]
    by (auto simp: STACK_SIZE_def)
  then have "register_named_task ''background_thread'' 0x101000 0x200000 8 task_manager_new =
      Inr (task_manager_new\<lparr>next_task_id := 3, tasks := [t]\<rparr>)"
    by (simp add: register_named_task_def task_manager_new_def add_ov_def)
  from sched_reachable.boot [OF this] show ?thesis by auto
qed

section \<open>Properties\<close>

text \<open>C3: in every state the kernel can reach, a timer tick schedules a task instead of
  panicking: the scheduler returns the stack pointer of the new current task, that task is
  ready, and the tick is counted. None of the stall panics of \<^verbatim>\<open>schedule_next\<close> can fire.\<close>

theorem scheduler_never_stalls:
  assumes "sched_reachable tm"
  shows "\<exists>sp tm'. schedule_next esp tm = Inr (sp, tm') \<and>
    current_task_idx tm' < length (tasks tm') \<and>
    task_state (tasks tm' ! current_task_idx tm') = Ready \<and>
    sp = stack_ptr (tasks tm' ! current_task_idx tm') \<and>
    tick_count tm' = tick_count tm + 1"
proof -
  have "sched_inv tm" using assms by (rule sched_reachable_inv)
  moreover have "tick_count (settle esp tm) = tick_count tm + 1"
    by (simp add: settle_def begin_tick_def ensure_main_task_tracked_def Let_def)
  ultimately show ?thesis by (auto elim!: schedule_next_ok [of tm esp])
qed

theorem scheduler_never_stalls_witness:
  "\<exists>tm. sched_reachable tm \<and> (\<exists>sp tm'. schedule_next 0x1234 tm = Inr (sp, tm') \<and>
    current_task_idx tm' < length (tasks tm') \<and>
    task_state (tasks tm' ! current_task_idx tm') = Ready \<and>
    sp = stack_ptr (tasks tm' ! current_task_idx tm') \<and>
    tick_count tm' = tick_count tm + 1)"
  using demo_reachable scheduler_never_stalls by blast

text \<open>C4: every reachable task list is well formed: task identifiers are distinct, positive
  and below the next identifier to be handed out, the current index is in range, kernel
  tasks exist and are ready, and only the current task can be terminated.\<close>

theorem reachable_tasks_well_formed:
  assumes "sched_reachable tm"
  shows "distinct (map task_id (tasks tm)) \<and>
    (\<forall>t \<in> set (tasks tm). 0 < task_id t \<and> task_id t < next_task_id tm) \<and>
    current_task_idx tm < length (tasks tm) \<and>
    (\<exists>t \<in> set (tasks tm). task_privilege t = Kernel) \<and>
    (\<forall>t \<in> set (tasks tm). task_privilege t = Kernel \<longrightarrow> task_state t = Ready) \<and>
    (\<forall>i < length (tasks tm). task_state (tasks tm ! i) = Terminated \<longrightarrow> i = current_task_idx tm)"
  using sched_reachable_inv [OF assms] by (auto simp: sched_inv_defs)

theorem reachable_tasks_well_formed_witness:
  "\<exists>tm. sched_reachable tm \<and> distinct (map task_id (tasks tm)) \<and>
     current_task_idx tm < length (tasks tm) \<and> length (tasks tm) = 1"
  using demo_reachable reachable_tasks_well_formed by blast

text \<open>C5: one tick with a live current task, in full: sleepers whose time has come are
  woken, exactly the current task is charged one tick and has its stack pointer saved, and
  the new current task is the first ready one in cyclic order after the old one.\<close>

theorem tick_is_round_robin:
  fixes esp :: u32
  assumes "sched_inv tm" and "main_task_tracked tm"
    and "task_state (tasks tm ! current_task_idx tm) \<noteq> Terminated"
  defines "now \<equiv> tick_count tm + 1" and "c \<equiv> current_task_idx tm" and "n \<equiv> length (tasks tm)"
  defines "ts \<equiv> map (wake_task now) (tasks tm)"
  defines "ts' \<equiv> ts[c := (ts ! c)\<lparr>stack_ptr := esp, run_ticks := run_ticks (ts ! c) + 1\<rparr>]"
  shows "\<exists>off. 1 \<le> off \<and> off \<le> n \<and> task_state (ts ! ((c + off) mod n)) = Ready \<and>
    (\<forall>k. 1 \<le> k \<and> k < off \<longrightarrow> task_state (ts ! ((c + k) mod n)) \<noteq> Ready) \<and>
    schedule_next esp tm =
      Inr (stack_ptr (ts' ! ((c + off) mod n)),
           tm\<lparr>tick_count := now, tasks := ts', current_task_idx := (c + off) mod n\<rparr>)"
  using tick_live [OF assms(1-3), of esp]
  unfolding ts'_def ts_def c_def n_def now_def charge_def is_ready_iff by metis

theorem tick_is_round_robin_witness:
  "schedule_next 0x777 (demo_tm Ready 0) =
     Inr (0x900, (demo_tm Ready 1)\<lparr>tick_count := 11,
       tasks := [(demo_user Ready)\<lparr>stack_ptr := 0x777, run_ticks := 8\<rparr>, demo_kernel]\<rparr>)"
proof -
  let ?ts = "[(demo_user Ready)\<lparr>stack_ptr := 0x777, run_ticks := 8\<rparr>, demo_kernel]"
  obtain off where off: "1 \<le> off" "\<forall>k. 1 \<le> k \<and> k < off \<longrightarrow>
        task_state ([demo_user Ready, demo_kernel] ! (k mod 2)) \<noteq> Ready"
      and sn: "schedule_next 0x777 (demo_tm Ready 0) =
        Inr (stack_ptr (?ts ! (off mod 2)),
             (demo_tm Ready 0)\<lparr>tick_count := 11, tasks := ?ts, current_task_idx := off mod 2\<rparr>)"
    using tick_is_round_robin [of "demo_tm Ready 0" "0x777"] demo_inv [of Ready 0]
    by (auto simp: numeral_2_eq_2 [symmetric])
  from off have "off = 1" by (cases "off = 1") (auto dest!: spec [of _ 1])
  with sn show ?thesis by (simp add: demo_tm_def)
qed

text \<open>C9: no starvation: within as many ticks as there are tasks, plus one, every ready task
  becomes the current task, whatever the interrupted stack pointers are.\<close>

theorem ready_task_runs_soon:
  assumes inv: "sched_inv tm" and t: "t \<in> set (tasks tm)" "task_state t = Ready"
    and es: "length es = length (tasks tm) + 1"
  shows "\<exists>k tm'. 1 \<le> k \<and> k \<le> length es \<and> ticks (take k es) tm = Inr tm' \<and>
    task_id (tasks tm' ! current_task_idx tm') = task_id t"
proof -
  obtain e es' where es': "es = e # es'" using es by (cases es) auto
  obtain j where sn: "schedule_next e tm =
      Inr (stack_ptr (tasks (settle e tm) ! j), (settle e tm)\<lparr>current_task_idx := j\<rparr>)"
    and j: "j < length (tasks (settle e tm))"
    using inv by (rule schedule_next_ok)
  let ?tm = "(settle e tm)\<lparr>current_task_idx := j\<rparr>" and ?n = "length (tasks (settle e tm))"
  have st: "sched_inv ?tm" "main_task_tracked ?tm" "all_live ?tm"
    using schedule_next_inv [OF inv sn] by simp_all
  obtain i where i: "i < ?n" "task_id (tasks (settle e tm) ! i) = task_id t"
      "task_state (tasks (settle e tm) ! i) = Ready"
    using settle_task [OF t(1) _ inv, of e] t(2) by (auto simp: in_set_conv_nth)
  have n: "?n \<le> length (tasks tm) + 1"
    using begin_tick_tasks(2) [of e tm] sched_inv_bound [OF sched_inv_begin_tick [OF inv], of e]
    by (auto simp: settle_def Let_def)
  show ?thesis
  proof (cases "i = j")
    case True
    with sn i es' show ?thesis by (intro exI [of _ 1]) auto
  next
    case False
    obtain d where d: "1 \<le> d" "d \<le> ?n" "(j + d) mod ?n = i"
      using i(1) by (rule cyclic_offset)
    with False j have "d < ?n" by (cases "d = ?n") auto
    then have "d \<le> length es'" using n es es' by simp
    then obtain k tm' where "1 \<le> k" "k \<le> d" "ticks (take k es') ?tm = Inr tm'"
        "current_task_idx tm' = i" "map task_id (tasks tm') = map task_id (tasks ?tm)"
      using wait_bound [OF st, of i d es'] i d by auto
    moreover from this have "length (tasks tm') = ?n" and "map task_id (tasks tm') ! i = task_id t"
      using i(1,2) by (auto dest: map_eq_imp_length_eq)
    then have "task_id (tasks tm' ! i) = task_id t" using i(1) by simp
    ultimately show ?thesis
      using sn es' \<open>d \<le> length es'\<close> by (intro exI [of _ "Suc k"]) auto
  qed
qed

theorem ready_task_runs_soon_witness:
  "\<exists>k tm'. 1 \<le> k \<and> k \<le> (3::nat) \<and> ticks (take k [5, 6, 7]) (demo_tm (Sleeping 50) 1) = Inr tm' \<and>
     task_id (tasks tm' ! current_task_idx tm') = 2"
  using ready_task_runs_soon [of "demo_tm (Sleeping 50) 1" demo_kernel "[5, 6, 7]"]
    demo_inv [of "Sleeping 50" 1]
  by (simp add: eval_nat_numeral)

text \<open>C12: kernel tasks are indestructible: no tick, sleep, kill, user fault or registration
  removes a kernel task or reorders the kernel tasks; a step at most appends new ones.\<close>

theorem kernel_tasks_survive:
  assumes "sched_reachable tm" and "sched_step tm tm'"
  shows "\<exists>new. kernel_ids tm' = kernel_ids tm @ new"
  using kernel_ids_step [OF assms(2) sched_reachable_inv [OF assms(1)]] .

theorem kernel_tasks_survive_witness:
  "\<exists>tm tm' new. sched_reachable tm \<and> sched_step tm tm' \<and> kernel_ids tm' = kernel_ids tm @ new"
proof -
  obtain tm where tm: "sched_reachable tm" using demo_reachable by blast
  obtain r tm' where "kill_task_by_pid 2 tm = (r, tm')" by (cases "kill_task_by_pid 2 tm")
  then have "sched_step tm tm'" by (rule sched_step.kill)
  with tm kernel_tasks_survive [OF tm this] show ?thesis by blast
qed

text \<open>C13: a task that sleeps until tick \<open>w\<close> is not scheduled by any earlier tick and stays
  asleep there; the tick that reaches \<open>w\<close> makes it ready again.\<close>

theorem sleeping_task_contract:
  assumes inv: "sched_inv tm" and t: "t \<in> set (tasks tm)" "task_state t = Sleeping w"
    and sn: "schedule_next esp tm = Inr (sp, tm')"
  shows "(\<exists>t' \<in> set (tasks tm'). task_id t' = task_id t \<and>
      task_state t' = (if w \<le> tick_count tm + 1 then Ready else Sleeping w)) \<and>
    (tick_count tm + 1 < w \<longrightarrow> task_id (tasks tm' ! current_task_idx tm') \<noteq> task_id t)"
proof -
  obtain i where i: "schedule_next esp tm =
      Inr (stack_ptr (tasks (settle esp tm) ! i), (settle esp tm)\<lparr>current_task_idx := i\<rparr>)"
      "i < length (tasks (settle esp tm))" "task_state (tasks (settle esp tm) ! i) = Ready"
    using inv by (rule schedule_next_ok)
  have tm': "tm' = (settle esp tm)\<lparr>current_task_idx := i\<rparr>" using sn i(1) by simp
  obtain t' where t': "t' \<in> set (tasks (settle esp tm))" "task_id t' = task_id t"
      "task_state t' = (if w \<le> tick_count tm + 1 then Ready else Sleeping w)"
    using settle_task [OF t(1) _ inv, of esp] t(2) by (auto simp: wake_task_Sleeping)
  have "distinct (map task_id (tasks (settle esp tm)))"
    using settle_inv(1) [OF inv] by (simp add: sched_inv_def ids_ok_def)
  then have "tasks (settle esp tm) ! i = t'" if "task_id (tasks (settle esp tm) ! i) = task_id t"
    using that t'(1,2) i(2) by (metis distinct_map inj_onD nth_mem)
  with t'(3) i(3) have "tick_count tm + 1 < w \<Longrightarrow> task_id (tasks (settle esp tm) ! i) \<noteq> task_id t"
    by (auto split: if_splits)
  with t' show ?thesis by (auto simp: tm')
qed

theorem sleeping_task_contract_witness:
  "\<exists>sp tm'. schedule_next 0x10 (demo_tm (Sleeping 50) 1) = Inr (sp, tm') \<and>
     (\<exists>t' \<in> set (tasks tm'). task_id t' = 1 \<and> task_state t' = Sleeping 50) \<and>
     task_id (tasks tm' ! current_task_idx tm') \<noteq> 1"
proof -
  have inv: "sched_inv (demo_tm (Sleeping 50) 1)" by (simp add: demo_inv)
  then obtain sp tm' where "schedule_next 0x10 (demo_tm (Sleeping 50) 1) = Inr (sp, tm')"
    by (rule schedule_next_ok)
  with sleeping_task_contract [OF inv, of "demo_user (Sleeping 50)" 50 "0x10" sp tm']
  show ?thesis by auto
qed



text \<open>C15: \<^verbatim>\<open>kill\<close>, by outcome. An error changes nothing and means that no user task has the
  pid. \<^verbatim>\<open>KilledNow\<close> removes exactly that task and leaves the same task current.
  \<^verbatim>\<open>MarkedForTermination\<close> concerns the current task, which the next tick removes.\<close>

theorem kill_contract:
  assumes inv: "sched_inv tm" and k: "kill_task_by_pid pid tm = (r, tm')"
  shows "case r of
      Inl e \<Rightarrow> tm' = tm \<and> (\<forall>t \<in> set (tasks tm). task_id t = pid \<longrightarrow> task_privilege t = Kernel)
    | Inr KilledNow \<Rightarrow> pid \<in> task_id ` set (tasks tm) \<and>
        map task_id (tasks tm') = remove1 pid (map task_id (tasks tm)) \<and>
        tasks tm' ! current_task_idx tm' = tasks tm ! current_task_idx tm
    | Inr MarkedForTermination \<Rightarrow> task_id (tasks tm ! current_task_idx tm) = pid \<and>
        (\<exists>sp tm''. schedule_next esp tm' = Inr (sp, tm'') \<and> pid \<notin> task_id ` set (tasks tm''))"
proof (cases "position (\<lambda>t. task_id t = pid) (tasks tm)")
  case None
  from kill_missing [OF None] k show ?thesis by auto
next
  case (Some i)
  note i = kill_pid_unique [OF inv Some]
  consider (kernel) "task_privilege (tasks tm ! i) = Kernel"
    | (current) "task_privilege (tasks tm ! i) = User" "i = current_task_idx tm"
    | (other) "task_privilege (tasks tm ! i) = User" "i \<noteq> current_task_idx tm"
    by (cases "task_privilege (tasks tm ! i)") auto
  then show ?thesis
  proof cases
    case kernel
    with k Some i(3) have "r = Inl ''cannot kill kernel task''" "tm' = tm"
      by (auto simp: kill_task_by_pid_def)
    moreover have "\<forall>t \<in> set (tasks tm). task_id t = pid \<longrightarrow> task_privilege t = Kernel"
      using kernel i(4) by blast
    ultimately show ?thesis by simp
  next
    case current
    with k Some i have r: "r = Inr MarkedForTermination"
        and tm': "tm' = tm\<lparr>tasks := (tasks tm)[i := (tasks tm ! i)\<lparr>task_state := Terminated\<rparr>]\<rparr>"
      by (auto simp: kill_task_by_pid_def Let_def)
    have inv': "sched_inv tm'" using kill_inv [OF inv, of pid] k by simp
    then obtain sp tm'' where "schedule_next esp tm' = Inr (sp, tm'')"
        "map task_id (tasks tm'') = remove1 pid (map task_id (tasks tm'))"
      using marked_task_removed [OF inv', of esp] current i by (auto simp: tm')
    moreover have "distinct (map task_id (tasks tm'))"
      using inv' by (simp add: sched_inv_def ids_ok_def)
    ultimately show ?thesis
      using r i(2) current(2) by (auto simp: set_remove1_eq simp flip: set_map)
  next
    case other
    with kill_drops_other [OF inv Some] k i(1,2) show ?thesis by (auto intro!: image_eqI)
  qed
qed

theorem kill_contract_witness:
  "kill_task_by_pid 1 (demo_tm Ready 1) = (Inr KilledNow, (demo_tm Ready 0)\<lparr>tasks := [demo_kernel]\<rparr>) \<and>
   map task_id (tasks ((demo_tm Ready 0)\<lparr>tasks := [demo_kernel]\<rparr>)) = remove1 1 [1, 2]"
proof -
  have k: "kill_task_by_pid 1 (demo_tm Ready 1) =
      (Inr KilledNow, (demo_tm Ready 0)\<lparr>tasks := [demo_kernel]\<rparr>)"
    by (simp add: kill_task_by_pid_def Let_def drop_task_def remove_at_def)
       (simp add: demo_tm_def)
  show ?thesis using kill_contract [OF demo_inv k] k by simp
qed

text \<open>A page fault in user mode removes exactly the running user task and switches to a
  ready task; raised while a kernel task is current, the same entry point panics.\<close>

lemma user_fault_contract:
  fixes esp :: u32
  assumes inv: "sched_inv tm"
  defines "tm1 \<equiv> ensure_main_task_tracked esp tm"
  shows "if in_user_mode tm then
      \<exists>sp tm'. terminate_current_user_task_from_fault esp tm = Inr (sp, tm') \<and>
        map task_id (tasks tm') =
          remove1 (task_id (tasks tm1 ! current_task_idx tm1)) (map task_id (tasks tm1)) \<and>
        task_state (tasks tm' ! current_task_idx tm') = Ready \<and>
        sp = stack_ptr (tasks tm' ! current_task_idx tm')
    else terminate_current_user_task_from_fault esp tm =
      Inl (ExplicitPanic ''User-fault path invoked while current task is not user'')"
proof (cases "in_user_mode tm")
  case True
  obtain i where i: "terminate_current_user_task_from_fault esp tm =
      Inr (stack_ptr (tasks (after_fault esp tm) ! i), (after_fault esp tm)\<lparr>current_task_idx := i\<rparr>)"
      "task_state (tasks (after_fault esp tm) ! i) = Ready"
    using inv True by (rule fault_ok)
  have inv1: "sched_inv tm1" unfolding tm1_def using inv by (rule sched_inv_ensure)
  then have "map task_id (tasks (after_fault esp tm)) =
      remove1 (task_id (tasks tm1 ! current_task_idx tm1)) (map task_id (tasks tm1))"
    using sched_inv_bound [OF inv1] remove_at_distinct [of "map task_id (tasks tm1)"]
    by (simp add: after_fault_def Let_def comp_def map_remove_at tm1_def [symmetric]
        sched_inv_def ids_ok_def)
  with True i show ?thesis by simp
next
  case False
  with fault_panics_in_kernel_mode [OF inv] show ?thesis by simp
qed

text \<open>The in-place clean-up loop of \<^verbatim>\<open>cleanup_terminated_non_current\<close>, which removes
  elements while it walks the vector and corrects the current index, computes the plain
  filter: it keeps the current task and every task that is not terminated, in order, and the
  current index still denotes the same task.\<close>

lemma cleanup_is_filter:
  assumes "current_task_idx tm < length (tasks tm)"
  defines "tm' \<equiv> cleanup_terminated_non_current tm"
  shows "tasks tm' = map snd (filter (\<lambda>(i, t). i = current_task_idx tm \<or> task_state t \<noteq> Terminated)
      (enumerate 0 (tasks tm))) \<and>
    current_task_idx tm' < length (tasks tm') \<and>
    tasks tm' ! current_task_idx tm' = tasks tm ! current_task_idx tm"
  unfolding tm'_def cleanup_eq [OF assms(1)] enumerate_filter_split [OF assms(1)]
  by (simp add: nth_append)

text \<open>\<^verbatim>\<open>ps\<close> and the scheduler statistics agree: the snapshot has \<^verbatim>\<open>total_tasks\<close> rows with
  distinct pids, and the only row that can read \<^verbatim>\<open>running\<close> is that of the current task
  (the initial user thread before the first tick).\<close>

lemma snapshot_agrees_with_stats:
  assumes "sched_inv tm"
  shows "length (process_snapshot tm) = total_tasks (stats tm) \<and>
    distinct (map ps_id (process_snapshot tm)) \<and>
    (\<forall>p \<in> set (process_snapshot tm). ps_state p = ''running'' \<longrightarrow>
      ps_id p = (if main_task_tracked tm then current_task_id (stats tm) else 1))"
proof -
  have ids: "distinct (map task_id (tasks tm))" "0 \<notin> task_id ` set (tasks tm)"
      "\<not> main_task_tracked tm \<Longrightarrow> 1 \<notin> task_id ` set (tasks tm)"
    using assms by (auto simp: sched_inv_def ids_ok_def tracking_ok_def)
  have c: "current_task_idx tm < length (tasks tm)" using assms by (rule sched_inv_bound)
  have proj: "map (\<lambda>x. task_id (snd x)) (enumerate 0 (tasks tm)) = map task_id (tasks tm)"
    by (metis (no_types, lifting) list.map_comp map_eq_conv map_snd_enumerate comp_apply)
  have len: "length (process_snapshot tm) = total_tasks (stats tm)"
    by (simp add: process_snapshot_def stats_def)
  have dist: "distinct (map ps_id (process_snapshot tm))"
    using ids proj
    by (auto simp: process_snapshot_def snapshot_of_def comp_def case_prod_beta)
       (metis enumerate_eq_zip in_set_zipE image_eqI snd_conv)
  have run: "ps_id p = (if main_task_tracked tm then current_task_id (stats tm) else 1)"
    if "p \<in> set (process_snapshot tm)" "ps_state p = ''running''" for p
    using that c
    by (auto simp: process_snapshot_def snapshot_of_def stats_def state_label_def in_set_enumerate_eq
        split: if_splits task_state.splits)
  show ?thesis using len dist run by blast
qed

text \<open>The frame \<^verbatim>\<open>Task::new\<close> fabricates is the one the timer interrupt returns through:
  below the stack top lie eight zeroed registers for \<^verbatim>\<open>popad\<close>, then the entry point, the
  code segment and flags with interrupts enabled for \<^verbatim>\<open>iretd\<close>, and the saved stack pointer
  is the first of these 44 bytes.\<close>

lemma new_task_returns_to_entry:
  assumes "unat base + STACK_SIZE < 2 ^ 32"
  shows "\<exists>t. task_new tid name priv entry base cs = Inr t \<and>
    task_id t = tid \<and> task_state t = Ready \<and> length (task_stack t) = STACK_SIZE \<and>
    (let sp = unat (stack_ptr t - base) in
      sp + 44 = STACK_SIZE \<and>
      (\<forall>i < 8. load_le (task_stack t) (sp + 4 * i) = 0) \<and>
      load_le (task_stack t) (sp + 32) = entry \<and>
      load_le (task_stack t) (sp + 36) = ucast cs \<and>
      load_le (task_stack t) (sp + 40) = 0x202)"
  using task_new_frame [OF assms, of tid name priv entry cs]
  by (auto simp: Let_def STACK_SIZE_def)

end
