(* ===== verification/Syscall.thy ===== *)
theory Syscall
  imports Text_Fmt Paging Scheduler
begin

text \<open>
  System calls: \<^verbatim>\<open>src/src/syscall.rs\<close>. The dispatcher gets the memory it may read from as a
  function from addresses to bytes and the task manager as a state; its result is the code put
  into \<^verbatim>\<open>eax\<close>, the new task manager and the console output.
\<close>

definition MAX_PRINT_LEN :: usize where "MAX_PRINT_LEN = 1024"
definition ERR_INVALID_POINTER :: u32 where "ERR_INVALID_POINTER = 1"
definition ERR_INVALID_LENGTH :: u32 where "ERR_INVALID_LENGTH = 2"
definition ERR_INVALID_UTF8 :: u32 where "ERR_INVALID_UTF8 = 3"
definition ERR_INVALID_CONTEXT :: u32 where "ERR_INVALID_CONTEXT = 4"
definition ERR_NOT_IMPLEMENTED :: u32 where "ERR_NOT_IMPLEMENTED = 0xFFFFFFFF"

definition validate_user_buffer :: "u32 \<Rightarrow> usize \<Rightarrow> u32 + (u32 \<times> usize)" where
  "validate_user_buffer ptr len =
     (if len = 0 \<or> len > MAX_PRINT_LEN then Err ERR_INVALID_LENGTH
      else if \<not> user_range_contains ptr len then Err ERR_INVALID_POINTER
      else Ok (ptr, len))"

section \<open>\<^verbatim>\<open>core::str::from_utf8\<close>\<close>

definition between :: "nat \<Rightarrow> nat \<Rightarrow> u8 \<Rightarrow> bool" where
  "between lo hi b \<longleftrightarrow> lo \<le> unat b \<and> unat b \<le> hi"

text \<open>The well-formed byte sequences of the Unicode standard, one character at a time.\<close>

fun utf8_char :: "u8 list \<Rightarrow> nat option" where
  "utf8_char [] = None"
| "utf8_char (a # r) =
     (if between 0 0x7F a then Some 1
      else case r of
        [] \<Rightarrow> None
      | b # r \<Rightarrow>
        if between 0xC2 0xDF a then (if between 0x80 0xBF b then Some 2 else None)
        else case r of
          [] \<Rightarrow> None
        | c # r \<Rightarrow>
          if between 0xE0 0xEF a
          then (if between (if a = 0xE0 then 0xA0 else 0x80) (if a = 0xED then 0x9F else 0xBF) b \<and>
                   between 0x80 0xBF c then Some 3 else None)
          else case r of
            [] \<Rightarrow> None
          | d # r \<Rightarrow>
            if between 0xF0 0xF4 a \<and>
               between (if a = 0xF0 then 0x90 else 0x80) (if a = 0xF4 then 0x8F else 0xBF) b \<and>
               between 0x80 0xBF c \<and> between 0x80 0xBF d
            then Some 4 else None)"

lemma utf8_char_pos: "utf8_char bs = Some n \<Longrightarrow> 0 < n"
  by (cases bs) (auto split: if_splits list.splits)

function utf8_valid :: "u8 list \<Rightarrow> bool" where
  "utf8_valid bs =
     (if bs = [] then True
      else case utf8_char bs of None \<Rightarrow> False | Some n \<Rightarrow> utf8_valid (drop n bs))"
  by pat_completeness auto
termination
  by (relation "measure length") (auto dest: utf8_char_pos)

declare utf8_valid.simps [simp del]

definition byte_char :: "u8 \<Rightarrow> char" where
  "byte_char b = char_of (unat b)"

definition from_utf8 :: "u8 list \<Rightarrow> string option" where
  "from_utf8 bs = (if utf8_valid bs then Some (map byte_char bs) else None)"

section \<open>The dispatcher\<close>

type_synonym memory = "u32 \<Rightarrow> u8"

definition from_raw_parts :: "memory \<Rightarrow> u32 \<Rightarrow> usize \<Rightarrow> u8 list" where
  "from_raw_parts m ptr len = map (\<lambda>i. m (ptr + of_nat i)) [0..<unat len]"

definition sys_print :: "memory \<Rightarrow> u32 \<Rightarrow> u32 \<Rightarrow> u32 \<times> console_op list" where
  "sys_print m arg1 arg2 =
     (case validate_user_buffer arg1 arg2 of
        Err code \<Rightarrow> (code, [])
      | Ok (ptr, len) \<Rightarrow>
          (case from_utf8 (from_raw_parts m ptr len) of
             Some s \<Rightarrow> (0, [println (''[Ring 3] '' @ s), serial_println (''[Syscall SYS_PRINT] '' @ s)])
           | None \<Rightarrow> (ERR_INVALID_UTF8, [])))"

definition sys_sleep :: "u32 \<Rightarrow> u32 \<Rightarrow> task_manager \<Rightarrow> u32 \<times> task_manager" where
  "sys_sleep current_esp n tm =
     (case sleep_current_task current_esp n tm of
        (ok, tm') \<Rightarrow> (if ok then 0 else ERR_INVALID_CONTEXT, tm'))"

definition syscall_dispatcher ::
    "memory \<Rightarrow> u32 \<Rightarrow> u32 \<Rightarrow> u32 \<Rightarrow> u32 \<Rightarrow> u32 \<Rightarrow> u32 \<Rightarrow> u32 \<Rightarrow> task_manager \<Rightarrow>
     u32 \<times> task_manager \<times> console_op list" where
  "syscall_dispatcher m syscall_number arg1 arg2 arg3 arg4 arg5 current_esp tm =
     (if syscall_number = 1 then
        let (code, out) = sys_print m arg1 arg2 in (code, tm, out)
      else if syscall_number = 2 then
        let (code, tm') = sys_sleep current_esp 1 tm in (code, tm', [])
      else if syscall_number = 3 then
        let (code, tm') = sys_sleep current_esp arg1 tm in (code, tm', [])
      else (ERR_NOT_IMPLEMENTED, tm,
            [serial_println (''[Syscall] UNKNOWN SYSCALL: '' @ show_nat (unat syscall_number))]))"

section \<open>Lemmas\<close>

lemma ascii_utf8: "list_all (between 0 0x7F) bs \<Longrightarrow> utf8_valid bs"
  by (induction bs) (simp_all add: utf8_valid.simps)

lemma validate_Inr:
  "validate_user_buffer ptr len = Inr (p, l) \<longleftrightarrow>
     p = ptr \<and> l = len \<and> 0 < unat len \<and> unat len \<le> 1024 \<and>
     0x400000 \<le> unat ptr \<and> unat ptr + unat len \<le> 0x800000"
  by (auto simp: validate_user_buffer_def user_range_contains_iff MAX_PRINT_LEN_def word_less_nat_alt
      unat_gt_0)

lemma slice_address:
  assumes "validate_user_buffer ptr len = Inr (ptr, len)" "i < unat len"
  shows "unat (ptr + of_nat i) = unat ptr + i"
proof -
  have "i < 1024" "unat ptr \<le> 0x800000" using assms by (auto simp: validate_Inr)
  then show ?thesis by (simp add: unat_word_ariths unsigned_of_nat take_bit_nat_eq_self)
qed

lemma slice_cong:
  assumes "validate_user_buffer ptr len = Inr (ptr, len)"
    and "\<And>a. 0x400000 \<le> unat a \<Longrightarrow> unat a < 0x800000 \<Longrightarrow> m a = m' a"
  shows "from_raw_parts m ptr len = from_raw_parts m' ptr len"
  using assms slice_address [OF assms(1)] by (auto simp: from_raw_parts_def validate_Inr intro!: assms(2))

lemma sleep_kernel_ids: "kernel_ids (snd (sleep_current_task esp n tm)) = kernel_ids tm"
  by (auto simp: sleep_current_task_def Let_def kernel_ids_update)

section \<open>Properties\<close>

text \<open>C17: a print system call reads nothing but user memory. Whatever the arguments, two
  memories that agree on the addresses user code can access through the page tables give the
  same result and the same output; so no byte of the kernel can be printed.\<close>

theorem sys_print_reads_only_user_memory:
  assumes "page_aligned pt0" "page_aligned pt1" "pt0 \<noteq> pt1"
    and "\<And>a. translate pt0 pt1 True a = Some a \<Longrightarrow> m a = m' a"
  shows "syscall_dispatcher m 1 ptr len x y z esp tm = syscall_dispatcher m' 1 ptr len x y z esp tm"
proof -
  have "m a = m' a" if "0x400000 \<le> unat a" "unat a < 0x800000" for a
    using assms(4) translate_eq [OF assms(1-3), of True a] that by simp
  then have "from_raw_parts m ptr len = from_raw_parts m' ptr len"
    if "validate_user_buffer ptr len = Inr (ptr, len)" using slice_cong [OF that] by blast
  then have "sys_print m ptr len = sys_print m' ptr len"
    by (auto simp: sys_print_def validate_user_buffer_def split: sum.split)
  then show ?thesis by (simp add: syscall_dispatcher_def)
qed

theorem sys_print_reads_only_user_memory_witness:
  "syscall_dispatcher (\<lambda>_. 65) 1 0x400100 3 0 0 0 0 task_manager_new =
   syscall_dispatcher (\<lambda>a. if 0x400000 \<le> a \<and> a < 0x800000 then 65 else 66) 1 0x400100 3 0 0 0 0 task_manager_new"
proof (rule sys_print_reads_only_user_memory [of "0x201000" "0x202000"])
  fix a assume "translate 0x201000 0x202000 True a = Some a"
  moreover have "page_aligned 0x201000" "page_aligned 0x202000" by (simp_all add: page_aligned_def)
  ultimately have "unat a < 0x800000 \<and> 0x400000 \<le> unat a"
    using translate_eq [of "0x201000" "0x202000" True a] by (simp split: if_splits)
  then show "65 = (if 0x400000 \<le> a \<and> a < 0x800000 then 65 else (66 :: u8))"
    by (simp add: word_le_nat_alt word_less_nat_alt)
qed (simp_all add: page_aligned_def)

text \<open>The print system call, on every argument: the length is checked before the range, the
  range before the text; the call succeeds exactly on 1 to 1024 bytes of well-formed UTF-8 inside
  the user range, prints that text once on each console, and otherwise prints nothing.\<close>

lemma sys_print_contract:
  "sys_print m ptr len =
     (let s = from_raw_parts m ptr len in
      if unat len = 0 \<or> 1024 < unat len then (2, [])
      else if unat ptr < 0x400000 \<or> 0x800000 < unat ptr + unat len then (1, [])
      else if \<not> utf8_valid s then (3, [])
      else (0, [Screen (''[Ring 3] '' @ map byte_char s @ [newline]),
                Serial (''[Syscall SYS_PRINT] '' @ map byte_char s @ [newline])]))"
proof -
  have "len = 0 \<or> len > MAX_PRINT_LEN \<longleftrightarrow> unat len = 0 \<or> 1024 < unat len"
    by (simp add: MAX_PRINT_LEN_def word_less_nat_alt unat_eq_0)
  moreover have "user_range_contains ptr len \<longleftrightarrow>
      \<not> (unat ptr < 0x400000 \<or> 0x800000 < unat ptr + unat len)" if "unat len \<noteq> 0"
    using that by (auto simp: user_range_contains_iff)
  ultimately show ?thesis
    by (simp add: sys_print_def validate_user_buffer_def from_utf8_def Let_def println_def serial_println_def
        ERR_INVALID_LENGTH_def ERR_INVALID_POINTER_def ERR_INVALID_UTF8_def)
qed

text \<open>No system call breaks the scheduler: in a well-formed state the dispatcher returns for
  every number and argument, keeps the invariant and the kernel tasks, and only the two sleeping
  calls touch the task manager; a number other than 1, 2 and 3 is refused with 0xFFFFFFFF.\<close>

lemma syscall_preserves_scheduler:
  fixes m :: memory and n a b c d e esp :: u32 and tm :: task_manager
  assumes "sched_inv tm"
  defines "r \<equiv> syscall_dispatcher m n a b c d e esp tm"
  shows "sched_inv (fst (snd r)) \<and> kernel_ids (fst (snd r)) = kernel_ids tm \<and>
     (fst (snd r) = tm \<or> n = 2 \<or> n = 3) \<and> (fst r = 0xFFFFFFFF \<or> n = 1 \<or> n = 2 \<or> n = 3)"
proof -
  have "sched_inv (snd (sys_sleep esp k tm))" "kernel_ids (snd (sys_sleep esp k tm)) = kernel_ids tm" for k
    using sleep_inv [OF assms(1), of esp k] sleep_kernel_ids [of esp k tm]
    by (simp_all add: sys_sleep_def split_beta)
  then show ?thesis
    using assms(1) by (simp add: r_def syscall_dispatcher_def ERR_NOT_IMPLEMENTED_def split_beta)
qed

end
