(* ===== verification/Scancode_Queue.thy ===== *)
theory Scancode_Queue
  imports Enos_Prelude
begin

text \<open>
  The ring buffer of \<^verbatim>\<open>shell.rs\<close> that carries keyboard scancodes from the interrupt
  handler to the shell thread. The interface \<open>bounded_fifo\<close> states what its clients rely
  on; the ring buffer is shown to implement it.
\<close>

section \<open>The interface\<close>

text \<open>Pushing a sequence, and popping at most \<open>n\<close> elements, with any queue's operations.\<close>

fun push_all :: "('q \<Rightarrow> 'a \<Rightarrow> bool \<times> 'q) \<Rightarrow> 'a list \<Rightarrow> 'q \<Rightarrow> 'q" where
  "push_all push [] q = q"
| "push_all push (x # xs) q = push_all push xs (snd (push q x))"

fun pop_upto :: "('q \<Rightarrow> 'a option \<times> 'q) \<Rightarrow> nat \<Rightarrow> 'q \<Rightarrow> 'a list \<times> 'q" where
  "pop_upto pop 0 q = ([], q)"
| "pop_upto pop (Suc n) q =
     (case pop q of
        (None, q') \<Rightarrow> ([], q')
      | (Some x, q') \<Rightarrow> (let (xs, q'') = pop_upto pop n q' in (x # xs, q'')))"

locale bounded_fifo =
  fixes empty :: 'q
    and push :: "'q \<Rightarrow> 'a \<Rightarrow> bool \<times> 'q"
    and pop :: "'q \<Rightarrow> 'a option \<times> 'q"
    and contents :: "'q \<Rightarrow> 'a list"
    and wf :: "'q \<Rightarrow> bool"
    and capacity :: nat
  assumes wf_empty: "wf empty"
    and contents_empty: "contents empty = []"
    and contents_bounded: "wf q \<Longrightarrow> length (contents q) \<le> capacity"
    and wf_push: "wf q \<Longrightarrow> wf (snd (push q x))"
    and push_accepts: "wf q \<Longrightarrow> fst (push q x) \<longleftrightarrow> length (contents q) < capacity"
    and contents_push: "wf q \<Longrightarrow> contents (snd (push q x)) =
      (if length (contents q) < capacity then contents q @ [x] else contents q)"
    and wf_pop: "wf q \<Longrightarrow> wf (snd (pop q))"
    and pop_result: "wf q \<Longrightarrow> fst (pop q) =
      (case contents q of [] \<Rightarrow> None | x # _ \<Rightarrow> Some x)"
    and contents_pop: "wf q \<Longrightarrow> contents (snd (pop q)) = tl (contents q)"
begin

lemma push_all_step: "wf q \<Longrightarrow>
    wf (push_all push xs q) \<and> contents (push_all push xs q) = take capacity (contents q @ xs)"
proof (induction xs arbitrary: q)
  case Nil
  then show ?case by (simp add: contents_bounded)
next
  case (Cons x xs)
  then have IH: "wf (push_all push xs (snd (push q x)))"
      "contents (push_all push xs (snd (push q x))) = take capacity (contents (snd (push q x)) @ xs)"
    by (simp_all add: wf_push)
  show ?case
  proof (cases "length (contents q) < capacity")
    case True
    then have "contents (snd (push q x)) @ xs = contents q @ x # xs"
      using Cons.prems by (simp add: contents_push)
    with IH show ?thesis by simp
  next
    case False
    then have "length (contents q) = capacity"
      using contents_bounded [OF Cons.prems] by simp
    with IH False Cons.prems show ?thesis by (simp add: contents_push)
  qed
qed

lemmas push_all_wf = push_all_step [THEN conjunct1]
  and push_all_contents = push_all_step [THEN conjunct2]

lemma pop_empty:
  assumes "wf q" and "contents q = []"
  obtains q' where "pop q = (None, q')" "wf q'" "contents q' = []"
  using assms wf_pop [of q] pop_result [of q] contents_pop [of q] by (cases "pop q") auto

lemma pop_nonempty:
  assumes "wf q" and "contents q = x # xs"
  obtains q' where "pop q = (Some x, q')" "wf q'" "contents q' = xs"
  using assms wf_pop [of q] pop_result [of q] contents_pop [of q] by (cases "pop q") auto

lemma pop_upto_step: "wf q \<Longrightarrow>
    wf (snd (pop_upto pop n q)) \<and> fst (pop_upto pop n q) = take n (contents q) \<and>
    contents (snd (pop_upto pop n q)) = drop n (contents q)"
proof (induction n arbitrary: q)
  case 0
  then show ?case by simp
next
  case (Suc n)
  show ?case
  proof (cases "contents q")
    case Nil
    obtain q' where "pop q = (None, q')" "wf q'" "contents q' = []"
      by (rule pop_empty [OF Suc.prems Nil])
    with Nil show ?thesis by simp
  next
    case (Cons x xs)
    obtain q' where "pop q = (Some x, q')" "wf q'" "contents q' = xs"
      by (rule pop_nonempty [OF Suc.prems Cons])
    with Cons Suc.IH [of q'] show ?thesis by (simp add: case_prod_beta)
  qed
qed

lemma fifo_delivery:
  assumes "wf q" and "length (contents q) + length xs \<le> capacity"
  shows "fst (pop_upto pop capacity (push_all push xs q)) = contents q @ xs"
    and "contents (snd (pop_upto pop capacity (push_all push xs q))) = []"
  using assms(2) push_all_contents [OF assms(1), of xs] pop_upto_step [OF push_all_wf [OF assms(1)]]
  by simp_all

end

section \<open>The ring buffer\<close>

definition SCANCODE_QUEUE_CAPACITY :: nat where
  "SCANCODE_QUEUE_CAPACITY = 128"

record scancode_queue =
  sq_data :: "u8 list"
  sq_head :: nat
  sq_tail :: nat
  sq_len :: nat

definition scancode_queue_new :: scancode_queue where
  "scancode_queue_new =
     \<lparr>sq_data = replicate SCANCODE_QUEUE_CAPACITY 0, sq_head = 0, sq_tail = 0, sq_len = 0\<rparr>"

definition sq_push :: "scancode_queue \<Rightarrow> u8 \<Rightarrow> bool \<times> scancode_queue" where
  "sq_push q scancode =
     (if sq_len q = SCANCODE_QUEUE_CAPACITY then (False, q)
      else (True, q\<lparr>sq_data := (sq_data q)[sq_tail q := scancode],
                    sq_tail := (sq_tail q + 1) mod SCANCODE_QUEUE_CAPACITY,
                    sq_len := sq_len q + 1\<rparr>))"

definition sq_pop :: "scancode_queue \<Rightarrow> u8 option \<times> scancode_queue" where
  "sq_pop q =
     (if sq_len q = 0 then (None, q)
      else (Some (sq_data q ! sq_head q),
            q\<lparr>sq_head := (sq_head q + 1) mod SCANCODE_QUEUE_CAPACITY,
              sq_len := sq_len q - 1\<rparr>))"

text \<open>The queued scancodes, oldest first, and the relation between the three indices.\<close>

definition sq_contents :: "scancode_queue \<Rightarrow> u8 list" where
  "sq_contents q =
     map (\<lambda>i. sq_data q ! ((sq_head q + i) mod SCANCODE_QUEUE_CAPACITY)) [0 ..< sq_len q]"

definition sq_wf :: "scancode_queue \<Rightarrow> bool" where
  "sq_wf q \<longleftrightarrow> length (sq_data q) = SCANCODE_QUEUE_CAPACITY \<and>
     sq_len q \<le> SCANCODE_QUEUE_CAPACITY \<and> sq_head q < SCANCODE_QUEUE_CAPACITY \<and>
     sq_tail q = (sq_head q + sq_len q) mod SCANCODE_QUEUE_CAPACITY"

lemma capacity_pos [simp]: "0 < SCANCODE_QUEUE_CAPACITY"
  by (simp add: SCANCODE_QUEUE_CAPACITY_def)

lemma ring_slots_differ:
  fixes h i j n :: nat
  assumes "i < j" "j < n"
  shows "(h + i) mod n \<noteq> (h + j) mod n"
proof
  assume "(h + i) mod n = (h + j) mod n"
  then have "(h + j) mod n = (h + i) mod n" by (rule sym)
  then have "n dvd (h + j) - (h + i)"
    using assms(1) mod_eq_dvd_iff_nat [of "h + i" "h + j" n] by simp
  then show False using assms by (auto dest: dvd_imp_le)
qed

lemma sq_contents_push:
  assumes "sq_wf q" and "sq_len q < SCANCODE_QUEUE_CAPACITY"
  shows "sq_contents (snd (sq_push q x)) = sq_contents q @ [x]"
proof -
  let ?n = SCANCODE_QUEUE_CAPACITY
  have "(sq_data q)[sq_tail q := x] ! ((sq_head q + i) mod ?n) = sq_data q ! ((sq_head q + i) mod ?n)"
    if "i < sq_len q" for i
    using ring_slots_differ [OF that assms(2), of "sq_head q"] assms(1) by (simp add: sq_wf_def)
  moreover have "(sq_data q)[sq_tail q := x] ! ((sq_head q + sq_len q) mod ?n) = x"
    using assms(1) by (simp add: sq_wf_def)
  ultimately show ?thesis
    using assms(2) by (simp add: sq_contents_def sq_push_def)
qed

lemma sq_contents_pop:
  assumes "sq_len q \<noteq> 0"
  shows "sq_contents q =
    sq_data q ! (sq_head q mod SCANCODE_QUEUE_CAPACITY) # sq_contents (snd (sq_pop q))"
proof -
  have "[0 ..< sq_len q] = 0 # map Suc [0 ..< sq_len q - 1]"
    using assms by (simp add: map_Suc_upt upt_conv_Cons)
  then show ?thesis
    using assms by (simp add: sq_contents_def sq_pop_def comp_def mod_add_left_eq)
qed

interpretation scq: bounded_fifo scancode_queue_new sq_push sq_pop sq_contents sq_wf
  SCANCODE_QUEUE_CAPACITY
proof
  fix q x
  assume wf: "sq_wf q"
  let ?n = SCANCODE_QUEUE_CAPACITY
  have len: "length (sq_contents q) = sq_len q" by (simp add: sq_contents_def)
  show "length (sq_contents q) \<le> ?n" using wf len by (simp add: sq_wf_def)
  show "sq_wf (snd (sq_push q x))"
    using wf by (auto simp: sq_wf_def sq_push_def mod_simps)
  show "fst (sq_push q x) \<longleftrightarrow> length (sq_contents q) < ?n"
    using wf len by (auto simp: sq_wf_def sq_push_def)
  show "sq_contents (snd (sq_push q x)) =
      (if length (sq_contents q) < ?n then sq_contents q @ [x] else sq_contents q)"
    using wf len sq_contents_push [OF wf, of x] by (auto simp: sq_push_def sq_wf_def)
  show "sq_wf (snd (sq_pop q))"
  proof (cases "sq_len q")
    case (Suc m)
    have "(sq_head q + Suc m) mod ?n = ((sq_head q + 1) mod ?n + m) mod ?n"
      by (simp add: mod_add_left_eq)
    with wf Suc show ?thesis by (simp add: sq_wf_def sq_pop_def)
  qed (use wf in \<open>simp add: sq_pop_def\<close>)
  show "fst (sq_pop q) = (case sq_contents q of [] \<Rightarrow> None | x # _ \<Rightarrow> Some x)"
  proof (cases "sq_len q = 0")
    case True
    then show ?thesis by (simp add: sq_pop_def sq_contents_def)
  next
    case False
    then have "fst (sq_pop q) = Some (sq_data q ! (sq_head q mod ?n))"
      using wf by (simp add: sq_pop_def sq_wf_def)
    then show ?thesis by (simp only: sq_contents_pop [OF False] list.case)
  qed
  show "sq_contents (snd (sq_pop q)) = tl (sq_contents q)"
  proof (cases "sq_len q = 0")
    case True
    then show ?thesis by (simp add: sq_pop_def sq_contents_def)
  next
    case False
    then show ?thesis by (simp only: sq_contents_pop [OF False] list.sel)
  qed
qed (simp_all add: scancode_queue_new_def sq_wf_def sq_contents_def)

section \<open>Properties\<close>

text \<open>The ring buffer is a first-in first-out queue of capacity 128: whatever is pushed
  onto a well-formed queue comes out in order behind what was queued before, as long as it
  fits, and the queue is empty afterwards; the indices stay in range throughout.\<close>

lemma scancodes_delivered_in_order:
  assumes "sq_wf q" and "length (sq_contents q) + length xs \<le> SCANCODE_QUEUE_CAPACITY"
  shows "fst (pop_upto sq_pop SCANCODE_QUEUE_CAPACITY (push_all sq_push xs q)) = sq_contents q @ xs \<and>
    sq_contents (snd (pop_upto sq_pop SCANCODE_QUEUE_CAPACITY (push_all sq_push xs q))) = [] \<and>
    sq_wf (push_all sq_push xs q)"
  using scq.fifo_delivery [OF assms] scq.push_all_wf [OF assms(1)] by simp

text \<open>When more scancodes arrive than fit, the queue keeps the oldest 128 and drops the
  rest; no queued scancode is overwritten.\<close>

lemma overflow_drops_newest:
  assumes "sq_wf q"
  shows "sq_contents (push_all sq_push xs q) =
    take SCANCODE_QUEUE_CAPACITY (sq_contents q @ xs)"
  using scq.push_all_contents [OF assms] .

end
