(* ===== verification/Idt.thy ===== *)
theory Idt
  imports Text_Fmt
begin

text \<open>
  The interrupt descriptor table: \<^verbatim>\<open>src/src/idt.rs\<close> and \<^verbatim>\<open>init_idt\<close> of
  \<^verbatim>\<open>src/src/interrupts.rs\<close>. Handlers are their addresses, the code segment register is an
  argument. Indexing the table out of range panics.
\<close>

section \<open>Gates\<close>

record idt_entry =
  offset_low :: u16
  selector :: u16
  zero :: u8
  type_attr :: u8
  offset_high :: u16

record interrupt_stack_frame =
  instruction_pointer :: u32
  code_segment :: u32
  cpu_flags :: u32
  stack_pointer :: u32
  stack_segment :: u32

definition idt_missing :: idt_entry where
  "idt_missing = \<lparr>offset_low = 0, selector = 0, zero = 0, type_attr = 0, offset_high = 0\<rparr>"

definition set_handler_raw :: "u16 \<Rightarrow> u32 \<Rightarrow> idt_entry \<Rightarrow> idt_entry" where
  "set_handler_raw cs pointer e =
     e\<lparr>offset_low := ucast pointer, selector := cs, zero := 0, type_attr := 0x8E,
       offset_high := ucast (drop_bit 16 pointer)\<rparr>"

definition set_handler_fn :: "u16 \<Rightarrow> u32 \<Rightarrow> idt_entry \<Rightarrow> idt_entry" where
  "set_handler_fn cs handler e = set_handler_raw cs handler e"

definition set_handler_user :: "u16 \<Rightarrow> u32 \<Rightarrow> idt_entry \<Rightarrow> idt_entry" where
  "set_handler_user cs pointer e = (set_handler_raw cs pointer e)\<lparr>type_attr := 0xEE\<rparr>"

type_synonym idt = "idt_entry list"

definition idt_new :: idt where
  "idt_new = replicate 256 idt_missing"

definition update_gate :: "nat \<Rightarrow> (idt_entry \<Rightarrow> idt_entry) \<Rightarrow> idt \<Rightarrow> idt run" where
  "update_gate index f t =
     (if index < length t then Ret (t[index := f (t ! index)]) else Panic IndexOutOfBounds)"

definition idt_set_handler :: "u16 \<Rightarrow> nat \<Rightarrow> u32 \<Rightarrow> idt \<Rightarrow> idt run" where
  "idt_set_handler cs index handler = update_gate index (set_handler_fn cs handler)"

definition idt_set_handler_ptr :: "u16 \<Rightarrow> nat \<Rightarrow> u32 \<Rightarrow> idt \<Rightarrow> idt run" where
  "idt_set_handler_ptr cs index pointer = update_gate index (set_handler_raw cs pointer)"

definition idt_set_handler_user :: "u16 \<Rightarrow> nat \<Rightarrow> u32 \<Rightarrow> idt \<Rightarrow> idt run" where
  "idt_set_handler_user cs index pointer = update_gate index (set_handler_user cs pointer)"

definition idt_set_handler_with_code :: "u16 \<Rightarrow> nat \<Rightarrow> u32 \<Rightarrow> idt \<Rightarrow> idt run" where
  "idt_set_handler_with_code cs index handler = update_gate index (set_handler_raw cs handler)"

record idt_ptr =
  idt_limit :: u16
  idt_base :: u32

definition idt_load :: "u32 \<Rightarrow> idt_ptr" where
  "idt_load addr = \<lparr>idt_limit = of_nat (256 * 8 - 1), idt_base = addr\<rparr>"

section \<open>The kernel's table\<close>

record handlers =
  default_exception_handler :: u32
  default_exception_with_code_handler :: u32
  breakpoint_handler :: u32
  timer_interrupt_wrapper :: u32
  keyboard_interrupt_handler :: u32
  page_fault_wrapper :: u32
  syscall_wrapper :: u32
  gpf_handler :: u32
  double_fault_handler :: u32

definition exception_has_error_code :: "nat \<Rightarrow> bool" where
  "exception_has_error_code vector \<longleftrightarrow> vector \<in> {8, 10, 11, 12, 13, 14, 17, 21, 29, 30}"

fun set_exceptions :: "handlers \<Rightarrow> u16 \<Rightarrow> nat list \<Rightarrow> idt \<Rightarrow> idt run" where
  "set_exceptions h cs [] t = Ret t"
| "set_exceptions h cs (vector # vs) t =
     rbind (if exception_has_error_code vector
            then idt_set_handler_with_code cs vector (default_exception_with_code_handler h) t
            else idt_set_handler cs vector (default_exception_handler h) t)
       (set_exceptions h cs vs)"

definition build_idt :: "handlers \<Rightarrow> u16 \<Rightarrow> idt run" where
  "build_idt h cs =
     rbind (set_exceptions h cs [0..<32] idt_new) (\<lambda>t.
     rbind (idt_set_handler cs 3 (breakpoint_handler h) t) (\<lambda>t.
     rbind (idt_set_handler_ptr cs 32 (timer_interrupt_wrapper h) t) (\<lambda>t.
     rbind (idt_set_handler cs 33 (keyboard_interrupt_handler h) t) (\<lambda>t.
     rbind (idt_set_handler_ptr cs 14 (page_fault_wrapper h) t) (\<lambda>t.
     rbind (idt_set_handler_user cs 0x80 (syscall_wrapper h) t) (\<lambda>t.
     rbind (idt_set_handler_with_code cs 13 (gpf_handler h) t) (\<lambda>t.
     idt_set_handler_with_code cs 8 (double_fault_handler h) t)))))))"

definition init_idt :: "handlers \<Rightarrow> u16 \<Rightarrow> u32 \<Rightarrow> ((idt \<times> idt_ptr) \<times> console_op list) run" where
  "init_idt h cs addr =
     rbind (build_idt h cs) (\<lambda>t.
       Ret ((t, idt_load addr), [serial_println (''IDT init: CS = '' @ fmt_hex cs)]))"

section \<open>How the processor reads a gate\<close>

definition gate_offset :: "idt_entry \<Rightarrow> u32" where
  "gate_offset e = ucast (offset_low e) OR push_bit 16 (ucast (offset_high e))"

definition gate_present :: "idt_entry \<Rightarrow> bool" where
  "gate_present e \<longleftrightarrow> bit (type_attr e) 7"

definition gate_dpl :: "idt_entry \<Rightarrow> nat" where
  "gate_dpl e = unat (drop_bit 5 (type_attr e) AND 3)"

text \<open>Type 14: an interrupt gate, which clears the interrupt flag on entry.\<close>

definition gate_masks_interrupts :: "idt_entry \<Rightarrow> bool" where
  "gate_masks_interrupts e \<longleftrightarrow> type_attr e AND 0x1F = 0x0E"

definition gate_view :: "idt_entry \<Rightarrow> (u16 \<times> u32 \<times> nat \<times> bool) option" where
  "gate_view e =
     (if gate_present e then Some (selector e, gate_offset e, gate_dpl e, gate_masks_interrupts e)
      else None)"

definition gate_to :: "u16 \<Rightarrow> nat \<Rightarrow> u32 \<Rightarrow> idt_entry \<Rightarrow> bool" where
  "gate_to cs dpl handler e \<longleftrightarrow> gate_view e = Some (cs, handler, dpl, True)"

text \<open>The handler of each vector; the last assignment to a vector wins.\<close>

definition exception_handler :: "handlers \<Rightarrow> nat \<Rightarrow> u32" where
  "exception_handler h v =
     (if exception_has_error_code v then default_exception_with_code_handler h
      else default_exception_handler h)"

definition handler_of :: "handlers \<Rightarrow> nat \<Rightarrow> u32 option" where
  "handler_of h v =
     (if v = 3 then Some (breakpoint_handler h)
      else if v = 8 then Some (double_fault_handler h)
      else if v = 13 then Some (gpf_handler h)
      else if v = 14 then Some (page_fault_wrapper h)
      else if v < 32 then
        Some (exception_handler h v)
      else if v = 32 then Some (timer_interrupt_wrapper h)
      else if v = 33 then Some (keyboard_interrupt_handler h)
      else if v = 0x80 then Some (syscall_wrapper h)
      else None)"

lemma gate_offset_split: "ucast (ucast p :: u16) OR push_bit 16 (ucast (ucast (drop_bit 16 p) :: u16)) = (p :: u32)"
proof (rule bit_word_eqI)
  fix n assume "n < LENGTH(32)"
  then show "bit (ucast (ucast p :: u16) OR push_bit 16 (ucast (ucast (drop_bit 16 p) :: u16)) :: u32) n = bit p n"
    by (cases "16 \<le> n") (auto simp: bit_or_iff bit_push_bit_iff bit_ucast_iff bit_drop_bit_eq)
qed

lemma raw_gate: "gate_to cs 0 p (set_handler_raw cs p e)"
  by (simp add: gate_to_def gate_view_def set_handler_raw_def gate_present_def gate_dpl_def gate_masks_interrupts_def
      gate_offset_def gate_offset_split)

lemma user_gate: "gate_to cs 3 p (set_handler_user cs p e)"
  by (simp add: gate_to_def gate_view_def set_handler_user_def set_handler_raw_def gate_present_def gate_dpl_def
      gate_masks_interrupts_def gate_offset_def gate_offset_split)

lemma missing_gate: "gate_view idt_missing = None"
  by (simp add: gate_view_def gate_present_def idt_missing_def)

lemmas gate_setters = idt_set_handler_def idt_set_handler_ptr_def idt_set_handler_user_def
  idt_set_handler_with_code_def set_handler_fn_def

lemma set_exceptions_nth:
  assumes "\<forall>v \<in> set vs. v < length t"
  shows "\<exists>t'. set_exceptions h cs vs t = Ret t' \<and> length t' = length t \<and>
    (\<forall>i < length t. if i \<in> set vs then gate_to cs 0 (exception_handler h i) (t' ! i) else t' ! i = t ! i)"
  using assms
proof (induction vs arbitrary: t)
  case (Cons v vs)
  define t1 where "t1 = t[v := set_handler_raw cs (exception_handler h v) (t ! v)]"
  have step: "set_exceptions h cs (v # vs) t = set_exceptions h cs vs t1"
    using Cons.prems by (simp add: gate_setters update_gate_def t1_def exception_handler_def)
  obtain t' where t': "set_exceptions h cs vs t1 = Ret t'" "length t' = length t1"
    "\<forall>i < length t1. if i \<in> set vs then gate_to cs 0 (exception_handler h i) (t' ! i) else t' ! i = t1 ! i"
    using Cons.IH [of t1] Cons.prems by (auto simp: t1_def)
  have "if i \<in> set (v # vs) then gate_to cs 0 (exception_handler h i) (t' ! i) else t' ! i = t ! i"
    if "i < length t" for i
  proof -
    have "t1 ! i = (if i = v then set_handler_raw cs (exception_handler h v) (t ! v) else t ! i)"
      using that by (simp add: t1_def)
    then show ?thesis using t'(3) that by (cases "i \<in> set vs") (auto simp: t1_def raw_gate)
  qed
  then show ?case using step t'(1,2) by (intro exI [of _ t']) (simp add: t1_def del: set_exceptions.simps)
qed simp

lemma idt_built:
  "\<exists>t. build_idt h cs = Ret t \<and> length t = 256 \<and>
     map gate_view t =
       map (\<lambda>v. map_option (\<lambda>p. (cs, p, if v = 0x80 then 3 else 0, True)) (handler_of h v)) [0..<256] \<and>
     unat (idt_limit (idt_load addr)) + 1 = 8 * 256"
proof -
  have "\<forall>v \<in> set [0..<32]. v < length idt_new" by (simp only: idt_new_def length_replicate) auto
  then obtain t where t: "set_exceptions h cs [0..<32] idt_new = Ret t" "length t = 256"
    "\<forall>i < 256. if i < 32 then gate_to cs 0 (exception_handler h i) (t ! i) else t ! i = idt_missing"
    using set_exceptions_nth [of "[0..<32]" idt_new h cs] by (auto simp: idt_new_def)
  define t' where "t' = t[3 := set_handler_raw cs (breakpoint_handler h) (t ! 3),
      32 := set_handler_raw cs (timer_interrupt_wrapper h) (t ! 32),
      33 := set_handler_raw cs (keyboard_interrupt_handler h) (t ! 33),
      14 := set_handler_raw cs (page_fault_wrapper h) (t ! 14),
      0x80 := set_handler_user cs (syscall_wrapper h) (t ! 0x80),
      13 := set_handler_raw cs (gpf_handler h) (t ! 13),
      8 := set_handler_raw cs (double_fault_handler h) (t ! 8)]"
  have "build_idt h cs = Ret t'"
    using t(1,2) by (simp add: build_idt_def gate_setters update_gate_def t'_def)
  moreover have "gate_view (t' ! v) =
      map_option (\<lambda>p. (cs, p, if v = 0x80 then 3 else 0, True)) (handler_of h v)" if "v < 256" for v
  proof (cases "v \<in> {3, 8, 13, 14, 32, 33, 0x80}")
    case True
    then show ?thesis using t(2)
      by (auto simp: t'_def handler_of_def nth_list_update
          raw_gate [unfolded gate_to_def] user_gate [unfolded gate_to_def])
  next
    case False
    then have "t' ! v = t ! v" by (simp add: t'_def)
    then show ?thesis using False t(3) that
      by (auto simp: handler_of_def missing_gate gate_to_def split: if_splits)
  qed
  moreover have len: "length t' = 256" using t(2) by (simp add: t'_def)
  ultimately show ?thesis
    by (intro exI [of _ t'] conjI nth_equalityI) (simp_all add: idt_load_def)
qed

section \<open>Properties\<close>

text \<open>C35: building the table never indexes out of range, and the finished table has a present
  interrupt gate with the kernel's code segment for exactly the 32 exceptions, the timer, the
  keyboard and the system call, each leading to its handler; only the system call gate is open to
  user mode; every gate enters with interrupts off; the register covers all 256 gates.\<close>

theorem idt_gates:
  "\<exists>t. build_idt h cs = Ret t \<and> length t = 256 \<and>
     map gate_view t =
       map (\<lambda>v. map_option (\<lambda>p. (cs, p, if v = 0x80 then 3 else 0, True)) (handler_of h v)) [0..<256] \<and>
     unat (idt_limit (idt_load addr)) + 1 = 8 * 256"
  by (rule idt_built)

end
