(* ===== verification/Interrupts.thy ===== *)
theory Interrupts
  imports Syscall Devices Scancode_Queue Idt
begin

text \<open>
  Interrupt handling: \<^verbatim>\<open>src/src/interrupts.rs\<close> and the entry points of
  \<^verbatim>\<open>src/src/task.rs\<close> it calls. The assembly wrappers are written on a model of the processor:
  the general registers, the values an interrupt saves, and the memory as 32-bit words (stack
  addresses are multiples of four). A call of a compiled function changes \<^verbatim>\<open>eax\<close>,
  \<^verbatim>\<open>ecx\<close>, \<^verbatim>\<open>edx\<close>, its arguments and the stack below them, to values that are
  arguments of the model.
\<close>

section \<open>Exception handlers\<close>

text \<open>A handler returns to the interrupted code or spins forever.\<close>

datatype handler_end = Returns | Spins

definition fmt_frame :: "interrupt_stack_frame \<Rightarrow> string" where
  "fmt_frame f =
     ''InterruptStackFrame {'' @ [newline] @
     concat (map (\<lambda>(name, v). ''    '' @ name @ '': '' @ show_nat (unat v) @ '','' @ [newline])
       [(''instruction_pointer'', instruction_pointer f), (''code_segment'', code_segment f),
        (''cpu_flags'', cpu_flags f), (''stack_pointer'', stack_pointer f),
        (''stack_segment'', stack_segment f)]) @ ''}''"

definition default_exception :: "interrupt_stack_frame \<Rightarrow> console_op list \<times> handler_end" where
  "default_exception frame =
     ([serial_println (''EXCEPTION: Unhandled CPU exception'' @ [newline] @ fmt_frame frame)], Spins)"

definition default_exception_with_code ::
    "interrupt_stack_frame \<Rightarrow> u32 \<Rightarrow> console_op list \<times> handler_end" where
  "default_exception_with_code frame error_code =
     ([serial_println (''EXCEPTION: Unhandled CPU exception with error code '' @ fmt_hex error_code @
        [newline] @ fmt_frame frame)], Spins)"

definition breakpoint :: "interrupt_stack_frame \<Rightarrow> console_op list \<times> handler_end" where
  "breakpoint frame = ([serial_println (''EXCEPTION: BREAKPOINT'' @ [newline] @ fmt_frame frame)], Returns)"

definition gpf :: "interrupt_stack_frame \<Rightarrow> u32 \<Rightarrow> console_op list \<times> handler_end" where
  "gpf frame error_code =
     ([serial_println (''EXCEPTION: General Protection Fault! ErrCode='' @ fmt_hex error_code @
        [newline] @ fmt_frame frame)], Spins)"

definition double_fault :: "interrupt_stack_frame \<Rightarrow> u32 \<Rightarrow> console_op list \<times> handler_end" where
  "double_fault frame error_code =
     ([serial_println (''EXCEPTION: Double Fault! ErrCode='' @ fmt_hex error_code @
        [newline] @ fmt_frame frame)], Spins)"

section \<open>Dispatchers\<close>

definition fault_text :: "u32 \<Rightarrow> u32 \<Rightarrow> string" where
  "fault_text fault_addr error_code =
     '' PAGE FAULT addr='' @ fmt_hex fault_addr @ '' err='' @ fmt_hex error_code @
     '' kind='' @ (if error_code AND 0x1 \<noteq> 0 then ''protection'' else ''not-present'') @
     '' access='' @ (if error_code AND 0x2 \<noteq> 0 then ''write'' else ''read'')"

definition page_fault_dispatcher ::
    "u32 \<Rightarrow> u32 \<Rightarrow> u32 \<Rightarrow> task_manager \<Rightarrow> (u32 \<times> task_manager \<times> console_op list) run" where
  "page_fault_dispatcher current_esp fault_addr error_code tm =
     (if error_code AND 0x4 \<noteq> 0
      then rbind (terminate_current_user_task_from_fault current_esp tm) (\<lambda>(sp, tm').
             Ret (sp, tm', [serial_println (''EXCEPTION: USER'' @ fault_text fault_addr error_code)]))
      else Panic (ExplicitPanic (''KERNEL'' @ fault_text fault_addr error_code)))"

definition scheduler_tick :: "u32 \<Rightarrow> task_manager \<Rightarrow> (u32 \<times> task_manager \<times> port_op list) run" where
  "scheduler_tick esp tm =
     rbind (pic_ack 32) (\<lambda>ops.
     rbind (schedule_next esp tm) (\<lambda>(sp, tm'). Ret (sp, tm', ops)))"

definition enqueue_scancode_from_irq :: "u8 \<Rightarrow> scancode_queue \<Rightarrow> scancode_queue" where
  "enqueue_scancode_from_irq scancode q = snd (sq_push q scancode)"

definition keyboard_interrupt :: "u8 \<Rightarrow> scancode_queue \<Rightarrow> (scancode_queue \<times> port_op list) run" where
  "keyboard_interrupt scancode q =
     (let q = enqueue_scancode_from_irq scancode q in rbind (pic_ack 33) (\<lambda>ops. Ret (q, ops)))"

text \<open>The interrupt flag around a closure; the closure runs on the flag and its own state.\<close>

definition without_interrupts :: "(bool \<times> 's \<Rightarrow> 'r \<times> bool \<times> 's) \<Rightarrow> bool \<times> 's \<Rightarrow> 'r \<times> bool \<times> 's" where
  "without_interrupts f st =
     (let (saved, s) = st; (result, (enabled, s')) = f (False, s)
      in (result, (if saved then True else enabled, s')))"

section \<open>The processor\<close>

record cpu =
  r_eax :: u32
  r_ecx :: u32
  r_edx :: u32
  r_ebx :: u32
  r_esp :: u32
  r_ebp :: u32
  r_esi :: u32
  r_edi :: u32
  r_eip :: u32
  r_cs :: u32
  r_eflags :: u32
  r_ss :: u32

type_synonym words = "u32 \<Rightarrow> u32"
type_synonym machine = "cpu \<times> words"

definition push :: "u32 \<Rightarrow> machine \<Rightarrow> machine" where
  "push v s = ((fst s)\<lparr>r_esp := r_esp (fst s) - 4\<rparr>, (snd s)(r_esp (fst s) - 4 := v))"

definition pushad :: "machine \<Rightarrow> machine" where
  "pushad s =
     (let c = fst s in
      push (r_edi c) (push (r_esi c) (push (r_ebp c) (push (r_esp c)
        (push (r_ebx c) (push (r_edx c) (push (r_ecx c) (push (r_eax c) s))))))))"

definition popad :: "machine \<Rightarrow> machine" where
  "popad s =
     (let c = fst s; m = snd s; e = r_esp c in
      (c\<lparr>r_edi := m e, r_esi := m (e + 4), r_ebp := m (e + 8), r_ebx := m (e + 16),
         r_edx := m (e + 20), r_ecx := m (e + 24), r_eax := m (e + 28), r_esp := e + 32\<rparr>, m))"

text \<open>Whether a code selector is one of ring 3.\<close>

definition user_selector :: "u32 \<Rightarrow> bool" where
  "user_selector sel \<longleftrightarrow> sel AND 3 = 3"

definition iretd :: "machine \<Rightarrow> machine" where
  "iretd s =
     (let c = fst s; m = snd s; e = r_esp c;
          c' = c\<lparr>r_eip := m e, r_cs := m (e + 4), r_eflags := m (e + 8)\<rparr>
      in if user_selector (m (e + 4))
         then (c'\<lparr>r_esp := m (e + 12), r_ss := m (e + 16)\<rparr>, m)
         else (c'\<lparr>r_esp := e + 12\<rparr>, m))"

text \<open>
  Delivery through an interrupt gate: from ring 3 the stack becomes the one of the task state
  segment; flags, code segment and instruction pointer are pushed, and the interrupt, trap,
  nested-task, resume and virtual-8086 flags are cleared. A page fault also pushes its error code.
\<close>

definition deliver_interrupt :: "u32 \<Rightarrow> u32 \<Rightarrow> machine \<Rightarrow> machine" where
  "deliver_interrupt esp0 handler s =
     (let c = fst s;
          s1 = (if user_selector (r_cs c)
                then push (r_esp c) (push (r_ss c) (c\<lparr>r_esp := esp0, r_ss := 0x10\<rparr>, snd s))
                else s);
          s2 = push (r_eip c) (push (r_cs c) (push (r_eflags c) s1))
      in ((fst s2)\<lparr>r_eip := handler, r_cs := 0x08, r_eflags := r_eflags c AND NOT 0x34300\<rparr>, snd s2))"

text \<open>A call with \<open>n\<close> argument words on the stack that returns \<open>result\<close>.\<close>

record clobber =
  c_ecx :: u32
  c_edx :: u32
  c_mem :: words

definition return_from_call :: "nat \<Rightarrow> u32 \<Rightarrow> clobber \<Rightarrow> machine \<Rightarrow> machine" where
  "return_from_call n result k s =
     ((fst s)\<lparr>r_eax := result, r_ecx := c_ecx k, r_edx := c_edx k\<rparr>,
      (\<lambda>a. if a < r_esp (fst s) + 4 * of_nat n then c_mem k a else snd s a))"

definition add_esp :: "u32 \<Rightarrow> machine \<Rightarrow> machine" where
  "add_esp n s = ((fst s)\<lparr>r_esp := r_esp (fst s) + n\<rparr>, snd s)"

definition set_esp :: "u32 \<Rightarrow> machine \<Rightarrow> machine" where
  "set_esp e s = ((fst s)\<lparr>r_esp := e\<rparr>, snd s)"

section \<open>The wrappers\<close>

definition timer_wrapper ::
    "clobber \<Rightarrow> machine \<Rightarrow> task_manager \<Rightarrow> (machine \<times> task_manager \<times> port_op list) run" where
  "timer_wrapper k s tm =
     (let s1 = pushad s; s2 = push (r_esp (fst s1)) s1 in
      rbind (scheduler_tick (snd s2 (r_esp (fst s2))) tm) (\<lambda>(eax, tm', ops).
        let s3 = add_esp 4 (return_from_call 1 eax k s2);
            s4 = set_esp (r_eax (fst s3)) s3
        in Ret (iretd (popad s4), tm', ops)))"

definition fault_wrapper ::
    "clobber \<Rightarrow> u32 \<Rightarrow> machine \<Rightarrow> task_manager \<Rightarrow> (machine \<times> task_manager \<times> console_op list) run" where
  "fault_wrapper k cr2 s tm =
     (let s1 = pushad s;
          ebx = r_esp (fst s1);
          ecx = snd s1 (ebx + 32);
          s2 = push ebx (push cr2 (push ecx s1));
          m = snd s2; e = r_esp (fst s2)
      in rbind (page_fault_dispatcher (m e) (m (e + 4)) (m (e + 8)) tm) (\<lambda>(eax, tm', out).
        let s3 = add_esp 12 (return_from_call 3 eax k s2);
            s4 = set_esp (r_eax (fst s3)) s3
        in Ret (iretd (popad s4), tm', out)))"

definition int80_wrapper ::
    "clobber \<Rightarrow> memory \<Rightarrow> machine \<Rightarrow> task_manager \<Rightarrow> machine \<times> task_manager \<times> console_op list" where
  "int80_wrapper k um s tm =
     (let s1 = pushad s; c = fst s1; ebp = r_esp c;
          s2 = push (r_eax c) (push (r_ebx c) (push (r_ecx c) (push (r_edx c)
                 (push (r_esi c) (push (r_edi c) (push ebp s1))))));
          m = snd s2; e = r_esp (fst s2);
          (eax, tm', out) = syscall_dispatcher um (m e) (m (e + 4)) (m (e + 8)) (m (e + 12))
                              (m (e + 16)) (m (e + 20)) (m (e + 24)) tm;
          s3 = add_esp 28 (return_from_call 7 eax k s2);
          s4 = (fst s3, (snd s3)(r_esp (fst s3) + 28 := r_eax (fst s3)))
      in (iretd (popad s4), tm', out))"

lemma ack_timer: "pic_ack 32 = Ret [Out 0x20 0x20]"
  by (simp add: pic_ack_def notify_end_of_interrupt_def handles_interrupt_def PICS_def PIC_1_OFFSET_def
      PIC_2_OFFSET_def add_ov_def PIC1_CMD_def PIC_EOI_def)

lemma ack_keyboard: "pic_ack 33 = Ret [Out 0x20 0x20]"
  by (simp add: pic_ack_def notify_end_of_interrupt_def handles_interrupt_def PICS_def PIC_1_OFFSET_def
      PIC_2_OFFSET_def add_ov_def PIC1_CMD_def PIC_EOI_def)

section \<open>Saved contexts\<close>

text \<open>
  \<open>context_at e m c\<close>: the words from \<open>e\<close> on are the registers of \<open>c\<close> as
  \<^verbatim>\<open>pushad\<close> and the interrupt left them.
\<close>

definition context_at :: "u32 \<Rightarrow> words \<Rightarrow> cpu \<Rightarrow> bool" where
  "context_at e m c \<longleftrightarrow>
     m e = r_edi c \<and> m (e + 4) = r_esi c \<and> m (e + 8) = r_ebp c \<and> m (e + 16) = r_ebx c \<and>
     m (e + 20) = r_edx c \<and> m (e + 24) = r_ecx c \<and> m (e + 28) = r_eax c \<and>
     m (e + 32) = r_eip c \<and> m (e + 36) = r_cs c \<and> m (e + 40) = r_eflags c \<and>
     (if user_selector (r_cs c) then m (e + 44) = r_esp c \<and> m (e + 48) = r_ss c
      else r_esp c = e + 44)"

definition resume :: "u32 \<Rightarrow> machine \<Rightarrow> machine" where
  "resume e s = iretd (popad (set_esp e s))"

lemma set_esp_same: "r_esp (fst s) = e \<Longrightarrow> set_esp e s = s"
  by (auto simp: set_esp_def prod_eq_iff)

lemma resume_context:
  assumes "context_at e (snd s) c" "user_selector (r_cs c) \<or> r_ss (fst s) = r_ss c"
  shows "resume e s = (c, snd s)"
proof -
  have "fst (resume e s) = c"
    using assms
    by (intro cpu.equality) (auto simp: resume_def iretd_def popad_def set_esp_def context_at_def Let_def
        add.commute [of _ e] split: if_splits)
  then show ?thesis by (simp add: prod_eq_iff resume_def iretd_def popad_def set_esp_def Let_def)
qed

text \<open>The stack an interrupt pushes on, and the address of the context it leaves there.\<close>

definition entry_stack :: "u32 \<Rightarrow> cpu \<Rightarrow> u32" where
  "entry_stack esp0 c = (if user_selector (r_cs c) then esp0 else r_esp c)"

definition saved_at :: "u32 \<Rightarrow> cpu \<Rightarrow> u32" where
  "saved_at esp0 c = entry_stack esp0 c - (if user_selector (r_cs c) then 52 else 44)"

lemma pushad_saves:
  "r_esp (fst (pushad (deliver_interrupt esp0 h (c, m)))) = saved_at esp0 c"
  "context_at (saved_at esp0 c) (snd (pushad (deliver_interrupt esp0 h (c, m)))) c"
  by (auto simp: pushad_def push_def deliver_interrupt_def Let_def saved_at_def entry_stack_def
      context_at_def)

lemma context_kept:
  assumes "context_at e m c" "\<And>a. e \<le> a \<Longrightarrow> m' a = m a" "unat e + 52 < 2 ^ 32"
  shows "context_at e m' c"
proof -
  have "m' (e + of_nat n) = m (e + of_nat n)" if "n \<le> 48" for n
    using assms(2,3) that by (simp add: word_le_nat_alt unat_word_ariths unsigned_of_nat take_bit_nat_eq_self)
  from this [of 0] this [of 4] this [of 8] this [of 16] this [of 20] this [of 24] this [of 28] this [of 32]
    this [of 36] this [of 40] this [of 44] this [of 48]
  show ?thesis using assms(1) by (simp add: context_at_def)
qed

text \<open>A stack inside the eight megabytes the page tables map, with room for the context.\<close>

definition stack_ok :: "u32 \<Rightarrow> bool" where
  "stack_ok a \<longleftrightarrow> 128 \<le> unat a \<and> unat a \<le> 0x800000"

lemma saved_at_bounds:
  assumes "stack_ok (entry_stack esp0 c)"
  shows "64 \<le> unat (saved_at esp0 c)" "unat (saved_at esp0 c) < 0x800000"
proof -
  have "unat (saved_at esp0 c) = unat (entry_stack esp0 c) - (if user_selector (r_cs c) then 52 else 44)"
    using assms by (simp add: saved_at_def stack_ok_def unat_sub word_le_nat_alt)
  then show "64 \<le> unat (saved_at esp0 c)" "unat (saved_at esp0 c) < 0x800000"
    using assms by (auto simp: stack_ok_def)
qed

lemma context_after_call:
  assumes "context_at e (snd s) c" "unat e < 0x800000" "r_esp (fst s) + 4 * of_nat n = e"
  shows "context_at e (snd (return_from_call n result k s)) c"
  using assms(1)
proof (rule context_kept)
  show "unat e + 52 < 2 ^ 32" using assms(2) by simp
qed (use assms(3) in \<open>simp add: return_from_call_def not_less [symmetric]\<close>)

lemma context_after_push:
  assumes "context_at e (snd s) c" "unat e < 0x800000" "r_esp (fst s) \<le> e" "4 \<le> unat (r_esp (fst s))"
  shows "context_at e (snd (push v s)) c"
  using assms(1)
proof (rule context_kept)
  show "unat e + 52 < 2 ^ 32" using assms(2) by simp
  fix a assume "e \<le> a"
  moreover have "r_esp (fst s) - 4 < r_esp (fst s)"
    using assms(4) by (simp add: word_less_nat_alt unat_sub word_le_nat_alt)
  ultimately have "a \<noteq> r_esp (fst s) - 4" using assms(3) by auto
  then show "snd (push v s) a = snd s a" by (simp add: push_def)
qed

lemma push_esp [simp]: "r_esp (fst (push v s)) = r_esp (fst s) - 4"
  by (simp add: push_def)

lemma pushes_esp: "r_esp (fst (foldr push vs s)) = r_esp (fst s) - 4 * of_nat (length vs)"
  by (induction vs) (simp_all add: algebra_simps)

lemma context_after_pushes:
  assumes "context_at e (snd s) c" "unat e < 0x800000" "r_esp (fst s) = e" "4 * length vs \<le> unat e"
  shows "context_at e (snd (foldr push vs s)) c"
  using assms(4)
proof (induction vs)
  case (Cons v vs)
  have "unat (r_esp (fst (foldr push vs s))) = unat e - 4 * length vs"
    using Cons.prems assms(2) unfolding pushes_esp assms(3)
    by (simp add: unat_sub word_le_nat_alt unat_word_ariths unsigned_of_nat take_bit_nat_eq_self)
  with Cons show ?case using context_after_push [OF _ assms(2)] by (simp add: word_le_nat_alt)
qed (simp add: assms(1))

text \<open>The registers reach the handler unchanged, apart from the stack pointer.\<close>

lemma pushad_registers:
  fixes esp0 h :: u32 and c :: cpu and m :: words
  defines "r \<equiv> fst (pushad (deliver_interrupt esp0 h (c, m)))"
  shows "r_eax r = r_eax c" "r_ecx r = r_ecx c" "r_edx r = r_edx c" "r_ebx r = r_ebx c"
    "r_esi r = r_esi c" "r_edi r = r_edi c"
    "r_ss r = (if user_selector (r_cs c) then 0x10 else r_ss c)"
  by (simp_all add: r_def pushad_def push_def deliver_interrupt_def Let_def)

lemma pushed_words:
  "snd (push v s) (r_esp (fst s) - 4) = v"
  "a \<noteq> r_esp (fst s) - 4 \<Longrightarrow> snd (push v s) a = snd s a"
  by (simp_all add: push_def)

lemma timer_wrapper_eq:
  assumes "schedule_next (saved_at esp0 c) tm = Ret (sp, tm')"
  shows "timer_wrapper k (deliver_interrupt esp0 h (c, m)) tm =
    Ret (resume sp (return_from_call 1 sp k (push (saved_at esp0 c) (pushad (deliver_interrupt esp0 h (c, m))))),
      tm', [Out 0x20 0x20])"
proof -
  have "snd (push (saved_at esp0 c) (pushad (deliver_interrupt esp0 h (c, m)))) (saved_at esp0 c - 4) =
      saved_at esp0 c"
    using pushed_words(1) [of _ "pushad (deliver_interrupt esp0 h (c, m))"] by (simp add: pushad_saves(1))
  then show ?thesis
    unfolding timer_wrapper_def Let_def pushad_saves(1)
    using assms pushad_saves(1) [of esp0 h c m]
    by (simp add: scheduler_tick_def ack_timer resume_def set_esp_def add_esp_def return_from_call_def)
qed

lemma saved_after_call:
  fixes esp0 :: u32 and c :: cpu
  defines "e \<equiv> saved_at esp0 c"
  assumes "stack_ok (entry_stack esp0 c)"
  shows "context_at e (snd (return_from_call 1 r k (push e (pushad (deliver_interrupt esp0 h (c, m)))))) c"
proof -
  let ?s2 = "push e (pushad (deliver_interrupt esp0 h (c, m)))"
  note p = pushad_saves(1) [of esp0 h c m, folded e_def] pushad_saves(2) [of esp0 c h m, folded e_def]
  note b = saved_at_bounds [OF assms(2), folded e_def]
  have "context_at e (snd ?s2) c" using context_after_push [OF p(2) b(2)] p(1) b(1) by simp
  then show ?thesis using context_after_call [of e ?s2 c 1 r k] b(2) p(1) by simp
qed

section \<open>Properties\<close>

text \<open>C6: a timer interrupt switches contexts without losing any. The address given to the
  scheduler is that of a complete copy of the interrupted registers, from user mode on the stack
  of the task state segment; the processor resumes with whatever context lies at the address the
  scheduler returns; and whenever a later return finds that copy unchanged, the interrupted code
  continues with exactly the registers, flags, stack and instruction pointer it had. In
  particular, if the scheduler keeps the current task, the interrupt is invisible to it.\<close>

theorem timer_interrupt_preserves_context:
  assumes "timer_wrapper k (deliver_interrupt esp0 h (c, m)) tm = Ret (s', tm', ops)"
    and "stack_ok (entry_stack esp0 c)" "user_selector (r_cs c) \<or> r_ss c = 0x10"
  shows "\<exists>sp s1. schedule_next (saved_at esp0 c) tm = Ret (sp, tm') \<and> ops = [Out 0x20 0x20] \<and>
     s' = resume sp s1 \<and> context_at (saved_at esp0 c) (snd s1) c \<and>
     (\<forall>s2. context_at (saved_at esp0 c) (snd s2) c \<and> r_ss (fst s2) = 0x10 \<longrightarrow>
        resume (saved_at esp0 c) s2 = (c, snd s2))"
proof -
  let ?e = "saved_at esp0 c" and ?s1 = "pushad (deliver_interrupt esp0 h (c, m))"
  have m2: "snd (push ?e ?s1) (r_esp (fst (push ?e ?s1))) = ?e" by (simp add: push_def)
  obtain sp where "schedule_next ?e tm = Ret (sp, tm')"
    using assms(1) unfolding timer_wrapper_def Let_def pushad_saves(1) m2 scheduler_tick_def
    by (auto simp: rbind_eq_Inr_iff ack_timer)
  moreover from timer_wrapper_eq [OF this] have "ops = [Out 0x20 0x20]"
    "s' = resume sp (return_from_call 1 sp k (push ?e ?s1))" using assms(1) by auto
  ultimately show ?thesis
    using saved_after_call [OF assms(2)] resume_context assms(3) by metis
qed

text \<open>C18: a system call changes one register. The dispatcher receives the caller's registers
  in its argument order and the address of the saved context; the caller continues after the
  interrupt with the result in \<^verbatim>\<open>eax\<close> and every other register, its flags and its stack
  as they were.\<close>

theorem syscall_changes_only_eax:
  assumes "stack_ok (entry_stack esp0 c)" "user_selector (r_cs c) \<or> r_ss c = 0x10"
    and "syscall_dispatcher um (r_eax c) (r_ebx c) (r_ecx c) (r_edx c) (r_esi c) (r_edi c)
           (saved_at esp0 c) tm = (code, tm', out)"
  shows "\<exists>m'. int80_wrapper k um (deliver_interrupt esp0 h (c, m)) tm = ((c\<lparr>r_eax := code\<rparr>, m'), tm', out)"
proof -
  let ?s = "pushad (deliver_interrupt esp0 h (c, m))" and ?e = "saved_at esp0 c"
  note p = pushad_saves(1) [of esp0 h c m] pushad_saves(2) [of esp0 c h m] and b = saved_at_bounds [OF assms(1)]
  note r = pushad_registers [of esp0 h c m]
  define s2 where "s2 = foldr push [r_eax c, r_ebx c, r_ecx c, r_edx c, r_esi c, r_edi c, ?e] ?s"
  have e2: "r_esp (fst s2) = ?e - 28" by (simp add: s2_def p(1))
  have args: "snd s2 (?e - 28) = r_eax c" "snd s2 (?e - 24) = r_ebx c" "snd s2 (?e - 20) = r_ecx c"
    "snd s2 (?e - 16) = r_edx c" "snd s2 (?e - 12) = r_esi c" "snd s2 (?e - 8) = r_edi c" "snd s2 (?e - 4) = ?e"
    by (simp_all add: s2_def push_def p(1))
  have "context_at ?e (snd s2) c" unfolding s2_def
    by (rule context_after_pushes [OF p(2) b(2) p(1)]) (use b(1) in simp)
  then have ctx: "context_at ?e (snd (return_from_call 7 code k s2)) c"
    using context_after_call [of ?e s2 c 7 code k] b(2) e2 by simp
  define s4 where "s4 = (let s3 = add_esp 28 (return_from_call 7 code k s2)
      in (fst s3, (snd s3)(r_esp (fst s3) + 28 := r_eax (fst s3))))"
  have "r_esp (fst s4) = ?e" "context_at ?e (snd s4) (c\<lparr>r_eax := code\<rparr>)"
    using ctx e2 by (simp_all add: s4_def Let_def add_esp_def return_from_call_def context_at_def)
  moreover have "r_ss (fst s4) = r_ss (fst ?s)"
    by (simp add: s4_def s2_def Let_def add_esp_def return_from_call_def push_def)
  ultimately have "iretd (popad s4) = (c\<lparr>r_eax := code\<rparr>, snd s4)"
    using resume_context [of ?e s4 "c\<lparr>r_eax := code\<rparr>"] r(7) assms(2)
    by (auto simp: resume_def set_esp_same split: if_splits)
  moreover have "int80_wrapper k um (deliver_interrupt esp0 h (c, m)) tm = (iretd (popad s4), tm', out)"
    using assms(3) unfolding int80_wrapper_def Let_def r p(1)
    by (simp add: s2_def [simplified, symmetric] e2 args s4_def Let_def)
  ultimately show ?thesis by simp
qed

lemma fault_frame:
  "r_esp (fst (pushad (push err (deliver_interrupt esp0 h (c, m))))) = saved_at esp0 c - 4"
  "snd (pushad (push err (deliver_interrupt esp0 h (c, m)))) (saved_at esp0 c - 4 + 32) = err"
  by (auto simp: pushad_def push_def deliver_interrupt_def Let_def saved_at_def entry_stack_def)

text \<open>C16: a page fault in a well-formed state, whatever the address, the kind of access and the
  interrupted registers. Raised by kernel code it panics with its description, whichever task is
  current. Raised by user code it removes exactly the running user task, reports the fault on the
  serial port, and the processor continues with the saved context of a ready task. A fault with
  the user bit while a kernel task is current panics and kills nothing.\<close>

theorem page_fault_contract:
  fixes esp0 h err cr2 :: u32 and c :: cpu and m :: words
  assumes "sched_inv tm"
  defines "s \<equiv> push err (deliver_interrupt esp0 h (c, m))"
    and "tm1 \<equiv> ensure_main_task_tracked (saved_at esp0 c - 4) tm"
  shows "if err AND 4 = 0 then
      fault_wrapper k cr2 s tm = Panic (ExplicitPanic (''KERNEL'' @ fault_text cr2 err))
    else if in_user_mode tm then
      \<exists>s1 tm'. fault_wrapper k cr2 s tm =
          Ret (resume (stack_ptr (tasks tm' ! current_task_idx tm')) s1, tm',
               [serial_println (''EXCEPTION: USER'' @ fault_text cr2 err)]) \<and>
        map task_id (tasks tm') =
          remove1 (task_id (tasks tm1 ! current_task_idx tm1)) (map task_id (tasks tm1)) \<and>
        task_privilege (tasks tm1 ! current_task_idx tm1) = User \<and>
        task_state (tasks tm' ! current_task_idx tm') = Ready \<and> sched_inv tm'
    else fault_wrapper k cr2 s tm =
      Panic (ExplicitPanic ''User-fault path invoked while current task is not user'')"
proof -
  let ?e = "saved_at esp0 c - 4"
  have f: "r_esp (fst (pushad s)) = ?e" "snd (pushad s) (?e + 32) = err"
    unfolding s_def by (rule fault_frame)+
  let ?s2 = "push ?e (push cr2 (push err (pushad s)))"
  have "snd ?s2 (?e - 12) = ?e" "snd ?s2 (?e - 8) = cr2" "snd ?s2 (?e - 4) = err"
    by (simp_all add: push_def f(1))
  then have w: "fault_wrapper k cr2 s tm = rbind (page_fault_dispatcher ?e cr2 err tm) (\<lambda>(eax, tm', out).
      Ret (resume eax (return_from_call 3 eax k ?s2), tm', out))"
    unfolding fault_wrapper_def Let_def f
    by (simp add: f(1) resume_def set_esp_def add_esp_def return_from_call_def)
  consider "err AND 4 = 0" | "err AND 4 \<noteq> 0" "in_user_mode tm" | "err AND 4 \<noteq> 0" "\<not> in_user_mode tm"
    by blast
  then show ?thesis
  proof cases
    case 2
    obtain sp tm' where t: "terminate_current_user_task_from_fault ?e tm = Inr (sp, tm')"
        "map task_id (tasks tm') = remove1 (task_id (tasks tm1 ! current_task_idx tm1)) (map task_id (tasks tm1))"
        "task_state (tasks tm' ! current_task_idx tm') = Ready" "sp = stack_ptr (tasks tm' ! current_task_idx tm')"
      using user_fault_contract [OF assms(1), of ?e] 2(2) unfolding tm1_def by auto
    have "task_privilege (tasks tm1 ! current_task_idx tm1) = User"
      unfolding tm1_def using 2(2) by (rule ensure_current_user)
    with 2 t show ?thesis using fault_inv [OF assms(1) t(1)]
      by (simp add: w page_fault_dispatcher_def del: split_paired_Ex) blast
  qed (simp_all add: w page_fault_dispatcher_def fault_panics_in_kernel_mode [OF assms(1)])
qed

section \<open>Witnesses\<close>

definition demo_cpu :: cpu where
  "demo_cpu =
     \<lparr>r_eax = 3, r_ecx = 50, r_edx = 0, r_ebx = 20, r_esp = 0x800000, r_ebp = 0, r_esi = 7, r_edi = 9,
      r_eip = 0x40001B, r_cs = 0x1B, r_eflags = 0x202, r_ss = 0x23\<rparr>"

definition demo_clobber :: clobber where
  "demo_clobber = \<lparr>c_ecx = 1, c_edx = 2, c_mem = (\<lambda>a. a)\<rparr>"

lemma demo_cpu_ok: "stack_ok (entry_stack 0x300000 demo_cpu)" "user_selector (r_cs demo_cpu)"
  by (simp_all add: demo_cpu_def user_selector_def entry_stack_def stack_ok_def)

lemma timer_wrapper_returns:
  assumes "schedule_next (saved_at esp0 c) tm = Ret (sp, tm')"
  shows "\<exists>s' ops. timer_wrapper k (deliver_interrupt esp0 h (c, m)) tm = Ret (s', tm', ops)"
  using timer_wrapper_eq [OF assms] by blast

theorem timer_interrupt_preserves_context_witness:
  "\<exists>s' tm' ops. timer_wrapper demo_clobber (deliver_interrupt 0x300000 0x101000 (demo_cpu, \<lambda>_. 0)) (demo_tm Ready 0) =
     Ret (s', tm', ops) \<and> ops = [Out 0x20 0x20]"
proof -
  obtain sp tm' where "schedule_next (saved_at 0x300000 demo_cpu) (demo_tm Ready 0) = Ret (sp, tm')"
    using schedule_next_ok [OF demo_inv [of Ready 0]] by (metis task_state.distinct(3) zero_less_numeral)
  from timer_wrapper_returns [OF this] obtain s' ops where
    w: "timer_wrapper demo_clobber (deliver_interrupt 0x300000 0x101000 (demo_cpu, \<lambda>_. 0)) (demo_tm Ready 0) =
      Ret (s', tm', ops)" by blast
  show ?thesis
    using timer_interrupt_preserves_context [OF w demo_cpu_ok(1)] demo_cpu_ok(2) w by blast
qed

theorem syscall_changes_only_eax_witness:
  "\<exists>code tm' out m'. int80_wrapper demo_clobber (\<lambda>_. 0) (deliver_interrupt 0x300000 0x101000 (demo_cpu, \<lambda>_. 0))
     (demo_tm Ready 0) = ((demo_cpu\<lparr>r_eax := code\<rparr>, m'), tm', out)"
proof -
  obtain code tm' out where
    "syscall_dispatcher (\<lambda>_. 0) (r_eax demo_cpu) (r_ebx demo_cpu) (r_ecx demo_cpu) (r_edx demo_cpu)
       (r_esi demo_cpu) (r_edi demo_cpu) (saved_at 0x300000 demo_cpu) (demo_tm Ready 0) = (code, tm', out)"
    by (rule prod_cases3)
  from syscall_changes_only_eax [OF demo_cpu_ok(1) _ this] demo_cpu_ok(2) show ?thesis by blast
qed

theorem page_fault_contract_witness:
  "(\<exists>s1 tm'. fault_wrapper demo_clobber 0x100000 (push 7 (deliver_interrupt 0x300000 0x101000 (demo_cpu, \<lambda>_. 0)))
      (demo_tm Ready 0) = Ret (s1, tm', [serial_println (''EXCEPTION: USER'' @ fault_text 0x100000 7)]) \<and>
      map task_id (tasks tm') = [2]) \<and>
   fault_wrapper demo_clobber 0x900000 (push 2 (deliver_interrupt 0x300000 0x101000 (demo_cpu, \<lambda>_. 0)))
      (demo_tm Ready 1) = Panic (ExplicitPanic (''KERNEL'' @ fault_text 0x900000 2))"
proof
  have "in_user_mode (demo_tm Ready 0)" by (simp add: in_user_mode_def)
  with page_fault_contract [OF demo_inv, of Ready 0 7 demo_clobber "0x100000" "0x300000" "0x101000" demo_cpu "\<lambda>_. 0"]
  show "\<exists>s1 tm'. fault_wrapper demo_clobber 0x100000 (push 7 (deliver_interrupt 0x300000 0x101000 (demo_cpu, \<lambda>_. 0)))
      (demo_tm Ready 0) = Ret (s1, tm', [serial_println (''EXCEPTION: USER'' @ fault_text 0x100000 7)]) \<and>
      map task_id (tasks tm') = [2]"
    by (simp add: ensure_main_task_tracked_def del: split_paired_Ex)
      (elim exE conjE, rule exI, rule exI, rule conjI, assumption, assumption)
  show "fault_wrapper demo_clobber 0x900000 (push 2 (deliver_interrupt 0x300000 0x101000 (demo_cpu, \<lambda>_. 0)))
      (demo_tm Ready 1) = Panic (ExplicitPanic (''KERNEL'' @ fault_text 0x900000 2))"
    using page_fault_contract [OF demo_inv, of Ready 1 2 demo_clobber "0x900000" "0x300000" "0x101000" demo_cpu "\<lambda>_. 0"]
    by simp
qed

end
