(* ===== verification/Gdt.thy ===== *)
theory Gdt
  imports Text_Fmt
begin

text \<open>
  Segment descriptors and the task state segment of \<^verbatim>\<open>src/src/gdt.rs\<close>. The structures are
  records with the fields of the packed Rust structures; their bytes are the fields in order,
  little-endian. The addresses at which the allocator places them are arguments.
\<close>

section \<open>Descriptors\<close>

record gdt_entry =
  limit_low :: u16
  base_low :: u16
  base_middle :: u8
  access :: u8
  granularity :: u8
  base_high :: u8

definition gdt_entry_empty :: gdt_entry where
  "gdt_entry_empty = \<lparr>limit_low = 0, base_low = 0, base_middle = 0, access = 0, granularity = 0,
     base_high = 0\<rparr>"

definition gdt_entry_new :: "u32 \<Rightarrow> u32 \<Rightarrow> u8 \<Rightarrow> u8 \<Rightarrow> gdt_entry" where
  "gdt_entry_new base limit acc gran =
     \<lparr>limit_low = ucast (limit AND 0xFFFF),
      base_low = ucast (base AND 0xFFFF),
      base_middle = ucast (drop_bit 16 base AND 0xFF),
      access = acc,
      granularity = ucast (drop_bit 16 limit AND 0x0F) OR (gran AND 0xF0),
      base_high = ucast (drop_bit 24 base AND 0xFF)\<rparr>"

definition u16_le :: "u16 \<Rightarrow> u8 list" where
  "u16_le w = [ucast w, ucast (drop_bit 8 w)]"

definition u32_le :: "u32 \<Rightarrow> u8 list" where
  "u32_le w = [ucast w, ucast (drop_bit 8 w), ucast (drop_bit 16 w), ucast (drop_bit 24 w)]"

definition gdt_entry_bytes :: "gdt_entry \<Rightarrow> u8 list" where
  "gdt_entry_bytes e =
     u16_le (limit_low e) @ u16_le (base_low e) @
     [base_middle e, access e, granularity e, base_high e]"

record gdt_ptr =
  gdt_limit :: u16
  gdt_base :: u32

section \<open>Task state segment\<close>

record tss =
  link :: u16
  res0 :: u16
  esp0 :: u32
  ss0 :: u16
  res1 :: u16
  esp1 :: u32
  ss1 :: u16
  res2 :: u16
  esp2 :: u32
  ss2 :: u16
  res3 :: u16
  cr3 :: u32
  eip :: u32
  eflags :: u32
  gprs :: "u32 list" \<comment> \<open>eax, ecx, edx, ebx, esp, ebp, esi, edi\<close>
  segs :: "u16 list" \<comment> \<open>es, cs, ss, ds, fs, gs, each with its reserved half\<close>
  ldtr :: u16
  res10 :: u16
  iopb :: u16
  tss_pad :: u16

definition tss_new :: tss where
  "tss_new = \<lparr>link = 0, res0 = 0, esp0 = 0, ss0 = 0x10, res1 = 0, esp1 = 0, ss1 = 0, res2 = 0,
     esp2 = 0, ss2 = 0, res3 = 0, cr3 = 0, eip = 0, eflags = 0, gprs = replicate 8 0,
     segs = replicate 12 0, ldtr = 0, res10 = 0, iopb = 104, tss_pad = 0\<rparr>"

definition tss_bytes :: "tss \<Rightarrow> u8 list" where
  "tss_bytes t =
     u16_le (link t) @ u16_le (res0 t) @ u32_le (esp0 t) @ u16_le (ss0 t) @ u16_le (res1 t) @
     u32_le (esp1 t) @ u16_le (ss1 t) @ u16_le (res2 t) @
     u32_le (esp2 t) @ u16_le (ss2 t) @ u16_le (res3 t) @
     u32_le (cr3 t) @ u32_le (eip t) @ u32_le (eflags t) @
     concat (map u32_le (gprs t)) @ concat (map u16_le (segs t)) @
     u16_le (ldtr t) @ u16_le (res10 t) @ u16_le (iopb t) @ u16_le (tss_pad t)"

definition size_of_tss :: u32 where "size_of_tss = 104"
definition size_of_gdt :: nat where "size_of_gdt = 48"

section \<open>Initialisation\<close>

record gdt_state =
  gdt_entries :: "gdt_entry list"
  gdt_register :: gdt_ptr
  tss_ptr :: "u32 option"
  tss_mem :: tss
  data_selectors :: u16 \<comment> \<open>ds, es, fs, gs and ss\<close>
  code_selector :: u16
  task_register :: u16

definition hex2 :: "u8 \<Rightarrow> string" where
  "hex2 b = pad_zero 2 (show_hex False (unat b))"

definition gdt_table :: "u32 \<Rightarrow> gdt_entry list" where
  "gdt_table tss_base =
     (replicate 6 gdt_entry_empty)
       [1 := gdt_entry_new 0 0xFFFFF 0x9A 0xCF,
        2 := gdt_entry_new 0 0xFFFFF 0x92 0xCF,
        3 := gdt_entry_new 0 0xFFFFF 0xFA 0xCF,
        4 := gdt_entry_new 0 0xFFFFF 0xF2 0xCF,
        5 := gdt_entry_new tss_base (size_of_tss - 1) 0x89 0x40]"

definition gdt_init :: "u32 \<Rightarrow> u32 \<Rightarrow> gdt_state \<times> console_op list" where
  "gdt_init tss_base gdt_addr =
     (let entries = gdt_table tss_base;
          b = gdt_entry_bytes (entries ! 2)
      in (\<lparr>gdt_entries = entries,
           gdt_register = \<lparr>gdt_limit = of_nat (size_of_gdt - 1), gdt_base = gdt_addr\<rparr>,
           tss_ptr = Some tss_base, tss_mem = tss_new, data_selectors = 0x10, code_selector = 0x08,
           task_register = 0x28\<rparr>,
          [serial_println (''GDT[2] bytes: '' @ concat (map (\<lambda>x. hex2 x @ '' '') (butlast b)) @ hex2 (last b)),
           serial_println (''GDT base: '' @ fmt_hex gdt_addr @ '', TSS base: '' @ fmt_hex tss_base)]))"

text \<open>The stack for interrupts from user mode: 8 KiB at \<open>stack\<close>, its top in the segment.\<close>

definition set_interrupt_stack :: "u32 \<Rightarrow> gdt_state \<Rightarrow> (gdt_state \<times> console_op list) run" where
  "set_interrupt_stack stack g =
     (if tss_ptr g = None
      then Panic (ExplicitPanic ''gdt::init() must be called before set_interrupt_stack()'')
      else rbind (add_ov stack 8192) (\<lambda>top.
        Ret (g\<lparr>tss_mem := (tss_mem g)\<lparr>esp0 := top\<rparr>\<rparr>,
             [serial_println (''GDT: TSS.esp0 set to '' @ fmt_hex top @ '' (Ring 0 interrupt stack top)'')])))"

section \<open>How the processor reads them\<close>

definition seg_base :: "gdt_entry \<Rightarrow> u32" where
  "seg_base e =
     ucast (base_low e) OR push_bit 16 (ucast (base_middle e)) OR push_bit 24 (ucast (base_high e))"

definition seg_limit :: "gdt_entry \<Rightarrow> u32" where
  "seg_limit e = ucast (limit_low e) OR push_bit 16 (ucast (granularity e AND 0x0F))"

text \<open>The last valid offset: the limit counts pages when the granularity bit is set.\<close>

definition seg_last :: "gdt_entry \<Rightarrow> nat" where
  "seg_last e =
     (if bit (granularity e) 7 then unat (seg_limit e) * 4096 + 4095 else unat (seg_limit e))"

definition seg_dpl :: "gdt_entry \<Rightarrow> nat" where
  "seg_dpl e = unat (drop_bit 5 (access e) AND 3)"

text \<open>The low five bits of the access byte: the descriptor class and the type.\<close>

datatype segment_kind = Readable_code | Writable_data | Available_tss | Other_kind

definition kind_of_access :: "u8 \<Rightarrow> segment_kind" where
  "kind_of_access acc =
     (let t = acc AND 0x1F in
      if t = 0x1A then Readable_code else if t = 0x12 then Writable_data
      else if t = 0x09 then Available_tss else Other_kind)"

definition seg_kind :: "gdt_entry \<Rightarrow> segment_kind" where
  "seg_kind e = kind_of_access (access e)"

definition seg_32bit :: "gdt_entry \<Rightarrow> bool" where
  "seg_32bit e \<longleftrightarrow> bit (granularity e) 6"

definition seg_present :: "gdt_entry \<Rightarrow> bool" where
  "seg_present e \<longleftrightarrow> bit (access e) 7"

text \<open>
  Port access below the I/O privilege level: the word at offset 102 of the task state segment
  locates a bit map, one bit per port; the access is granted when the two bytes that hold the
  port's bit lie inside the segment and the bit is clear.
\<close>

definition io_map_base :: "u8 list \<Rightarrow> nat" where
  "io_map_base bs = unat (bs ! 102) + 256 * unat (bs ! 103)"

definition io_allowed :: "u8 list \<Rightarrow> nat \<Rightarrow> nat \<Rightarrow> bool" where
  "io_allowed bs limit port \<longleftrightarrow>
     (let i = io_map_base bs + port div 8 in i + 1 \<le> limit \<and> \<not> bit (bs ! i) (port mod 8))"

lemma seg_base_new: "seg_base (gdt_entry_new base limit acc gran) = base"
proof (rule bit_word_eqI)
  fix n assume n: "n < LENGTH(32)"
  have m: "(0xFFFF :: u32) = mask 16" "(0xFF :: u32) = mask 8" by (simp_all add: mask_eq_exp_minus_1)
  show "bit (seg_base (gdt_entry_new base limit acc gran)) n = bit base n"
    unfolding seg_base_def gdt_entry_new_def m using n
    by (cases "24 \<le> n"; cases "16 \<le> n")
      (auto simp: bit_or_iff bit_and_iff bit_push_bit_iff bit_ucast_iff bit_drop_bit_eq bit_mask_iff)
qed

lemma seg_limit_new: "seg_limit (gdt_entry_new base limit acc gran) = limit AND 0xFFFFF"
proof (rule bit_word_eqI)
  fix n assume n: "n < LENGTH(32)"
  have m: "(0xFFFF :: u32) = mask 16" "(0x0F :: u32) = mask 4" "(0xFFFFF :: u32) = mask 20"
    "(0x0F :: u8) = mask 4"
    by (simp_all add: mask_eq_exp_minus_1)
  have x: "ucast (y AND 0x0F) AND (0x0F :: u8) = ucast (y AND 0x0F)" for y :: u32
    unfolding m by (rule bit_word_eqI) (auto simp: bit_and_iff bit_ucast_iff bit_mask_iff)
  have "(gran AND 0xF0) AND 0x0F = gran AND (0xF0 AND 0x0F)" by (rule and.assoc)
  then have g: "granularity (gdt_entry_new base limit acc gran) AND 0x0F =
      ucast (drop_bit 16 limit AND 0x0F)"
    by (simp add: gdt_entry_new_def bit.conj_disj_distrib2 x)
  show "bit (seg_limit (gdt_entry_new base limit acc gran)) n = bit (limit AND 0xFFFFF) n"
    unfolding seg_limit_def g using n
    by (cases "16 \<le> n")
      (auto simp: gdt_entry_new_def m bit_or_iff bit_and_iff bit_push_bit_iff bit_ucast_iff
        bit_drop_bit_eq bit_mask_iff)
qed

section \<open>Properties\<close>

text \<open>A descriptor encodes what it is given: the processor reads back the full 32-bit base,
  the low 20 bits of the limit and the access byte.\<close>

lemma gdt_entry_round_trip:
  "seg_base (gdt_entry_new base limit acc gran) = base \<and>
   seg_limit (gdt_entry_new base limit acc gran) = limit AND 0xFFFFF \<and>
   access (gdt_entry_new base limit acc gran) = acc"
  by (simp add: seg_base_new seg_limit_new) (simp add: gdt_entry_new_def)

text \<open>A present 32-bit segment of all four gigabytes, under a selector of the table.\<close>

definition flat_segment :: "gdt_entry \<Rightarrow> segment_kind \<Rightarrow> nat \<Rightarrow> bool" where
  "flat_segment e kind dpl \<longleftrightarrow>
     seg_present e \<and> seg_kind e = kind \<and> seg_32bit e \<and> seg_dpl e = dpl \<and> seg_base e = 0 \<and>
     seg_last e = 2 ^ 32 - 1"

definition segment_for :: "gdt_state \<Rightarrow> u16 \<Rightarrow> gdt_entry" where
  "segment_for g sel = gdt_entries g ! (unat sel div 8)"

lemma flat_new:
  assumes "bit acc 7"
  shows "flat_segment (gdt_entry_new 0 0xFFFFF acc 0xCF) (kind_of_access acc) (unat (drop_bit 5 acc AND 3))"
proof -
  have g: "granularity (gdt_entry_new 0 0xFFFFF acc 0xCF) = 0xCF" by (simp add: gdt_entry_new_def)
  have a: "access (gdt_entry_new 0 0xFFFFF acc 0xCF) = acc" by (simp add: gdt_entry_new_def)
  show ?thesis
    using assms by (simp add: flat_segment_def seg_present_def seg_kind_def seg_32bit_def seg_dpl_def
        seg_last_def g a seg_base_new seg_limit_new)
qed

lemma gdt_table_nth:
  "gdt_table b ! 1 = gdt_entry_new 0 0xFFFFF 0x9A 0xCF"
  "gdt_table b ! 2 = gdt_entry_new 0 0xFFFFF 0x92 0xCF"
  "gdt_table b ! 3 = gdt_entry_new 0 0xFFFFF 0xFA 0xCF"
  "gdt_table b ! 4 = gdt_entry_new 0 0xFFFFF 0xF2 0xCF"
  "gdt_table b ! 5 = gdt_entry_new b 103 0x89 0x40"
  by (simp_all add: gdt_table_def nth_list_update size_of_tss_def)

lemma length_u16_le [simp]: "length (u16_le w) = 2"
  by (simp add: u16_le_def)

lemma length_u32_le [simp]: "length (u32_le w) = 4"
  by (simp add: u32_le_def)

lemma tss_segment:
  fixes b :: u32
  defines "e \<equiv> gdt_entry_new b 103 0x89 0x40"
  shows "seg_base e = b" "seg_last e = 103" "seg_present e" "seg_kind e = Available_tss" "seg_dpl e = 0"
proof -
  have "granularity e = 0x40" "access e = 0x89" by (simp_all add: e_def gdt_entry_new_def)
  then show "seg_last e = 103" "seg_present e" "seg_kind e = Available_tss" "seg_dpl e = 0"
    by (simp_all add: seg_last_def e_def seg_limit_new seg_present_def seg_kind_def kind_of_access_def seg_dpl_def)
qed (simp add: e_def seg_base_new)

lemma gdt_init_state:
  fixes tss_base gdt_addr :: u32
  defines "g \<equiv> fst (gdt_init tss_base gdt_addr)"
  shows "gdt_entries g = gdt_table tss_base" "tss_mem g = tss_new" "code_selector g = 0x08"
    "data_selectors g = 0x10" "task_register g = 0x28" "gdt_limit (gdt_register g) = 47"
    "gdt_base (gdt_register g) = gdt_addr" "tss_ptr g = Some tss_base"
  by (simp_all add: g_def gdt_init_def Let_def size_of_gdt_def)

text \<open>The table as the processor needs it: flat segments of the right type and privilege under
  the five selectors, a task segment that covers exactly the task state, and a register that
  covers exactly the six descriptors.\<close>

definition gdt_loaded :: "u32 \<Rightarrow> u32 \<Rightarrow> gdt_state \<Rightarrow> bool" where
  "gdt_loaded tss_base gdt_addr g \<longleftrightarrow>
     flat_segment (segment_for g 0x08) Readable_code 0 \<and>
     flat_segment (segment_for g 0x10) Writable_data 0 \<and>
     flat_segment (segment_for g 0x1B) Readable_code 3 \<and>
     flat_segment (segment_for g 0x23) Writable_data 3 \<and>
     (let t = segment_for g (task_register g) in
      seg_present t \<and> seg_kind t = Available_tss \<and> seg_dpl t = 0 \<and> seg_base t = tss_base \<and>
      seg_last t + 1 = length (tss_bytes (tss_mem g))) \<and>
     gdt_base (gdt_register g) = gdt_addr \<and>
     unat (gdt_limit (gdt_register g)) + 1 = length (concat (map gdt_entry_bytes (gdt_entries g)))"

lemma length_tss_bytes: "length (tss_bytes (tss_new\<lparr>esp0 := stk\<rparr>)) = 104"
  by (simp add: tss_bytes_def tss_new_def length_concat sum_list_replicate)

lemma gdt_table_loaded:
  assumes "gdt_entries g = gdt_table tss_base" "task_register g = 0x28" "gdt_limit (gdt_register g) = 47"
    and "gdt_base (gdt_register g) = gdt_addr" "tss_mem g = tss_new\<lparr>esp0 := stk\<rparr>"
  shows "gdt_loaded tss_base gdt_addr g"
proof -
  have "length (concat (map gdt_entry_bytes (gdt_table tss_base))) = 48"
    by (simp add: gdt_table_def gdt_entry_bytes_def length_concat comp_def sum_list_triv)
  then show ?thesis
    using flat_new [of "0x9A"] flat_new [of "0x92"] flat_new [of "0xFA"] flat_new [of "0xF2"]
    by (simp add: gdt_loaded_def assms segment_for_def gdt_table_nth gdt_table_nth(1) [unfolded One_nat_def]
        tss_segment length_tss_bytes kind_of_access_def)
qed

text \<open>C33: the table the kernel loads has present flat four-gigabyte 32-bit segments: readable code
  under 0x08 and writable data under 0x10 at privilege 0, readable code under 0x1B and writable
  data under 0x23 at privilege 3; under 0x28, the task register, a present available task segment
  of privilege 0 at the given address that covers exactly the task state structure; the table
  register holds the table's address and covers exactly the six descriptors. The kernel runs with
  the selectors 0x08 and 0x10.\<close>

theorem gdt_segments:
  fixes tss_base gdt_addr :: u32
  defines "g \<equiv> fst (gdt_init tss_base gdt_addr)"
  shows "gdt_loaded tss_base gdt_addr g \<and> code_selector g = 0x08 \<and> data_selectors g = 0x10 \<and>
     task_register g = 0x28"
proof -
  have "tss_new\<lparr>esp0 := 0\<rparr> = tss_new" by (simp add: tss_new_def)
  then show ?thesis
    unfolding g_def using gdt_table_loaded [of _ tss_base gdt_addr 0] by (simp add: gdt_init_state)
qed

lemma le_literals:
  "u16_le 0 = [0, 0]" "u32_le 0 = [0, 0, 0, 0]" "u16_le 0x10 = [0x10, 0]" "u16_le 104 = [104, 0]"
  by (simp_all add: u16_le_def u32_le_def)

lemma zero_registers:
  "concat (replicate 8 [0 :: u8, 0, 0, 0]) = replicate 32 0"
  "concat (replicate 12 [0 :: u8, 0]) = replicate 24 0"
  by (simp_all add: numeral_eq_Suc)

text \<open>C34: the I/O permission map of the task state segment is not where the processor looks for
  it. The kernel stores 104, the size of the structure, meaning no map, at offset 100; the
  processor reads the word at offset 102, which is 0, and takes the structure itself as the map.
  Whatever the interrupt stack, user code may then access the timer ports 0x40 and 0x43 and the
  keyboard ports 0x60 and 0x64.\<close>

theorem user_reaches_io_ports:
  fixes top :: u32
  defines "bs \<equiv> tss_bytes (tss_new\<lparr>esp0 := top\<rparr>)"
  shows "bs ! 100 = 104 \<and> io_map_base bs = 0 \<and>
     io_allowed bs 103 0x40 \<and> io_allowed bs 103 0x43 \<and> io_allowed bs 103 0x60 \<and> io_allowed bs 103 0x64"
proof -
  have bs: "bs = [0, 0, 0, 0] @ u32_le top @ [0x10, 0, 0, 0] @ replicate 28 0 @ replicate 32 0 @
      replicate 24 0 @ replicate 4 0 @ [104, 0, 0, 0]"
    unfolding bs_def by (simp add: tss_bytes_def tss_new_def le_literals zero_registers)
      (simp add: numeral_eq_Suc)
  have n: "bs ! 100 = 104" "bs ! 102 = 0" "bs ! 103 = 0" "bs ! 8 = 0x10" "bs ! 12 = 0"
    by (simp_all add: bs nth_append)
  show ?thesis by (simp add: io_allowed_def io_map_base_def n)
qed

end
