(* ===== verification/User_Program.thy ===== *)
theory User_Program
  imports Interrupts Gdt
begin

text \<open>
  The demonstration program of \<^verbatim>\<open>src/src/main.rs\<close>: the kernel assembles it byte by byte into
  an array, copies it to the start of the user range and enters it in ring 3. The reference is
  the processor's view of the bytes: the five instruction forms the program uses, with their
  operands decoded from memory.
\<close>

definition USER_CODE_ADDR :: u32 where "USER_CODE_ADDR = USER_SPACE_START"
definition USER_MSG_ADDR :: u32 where "USER_MSG_ADDR = USER_SPACE_START + 0x100"

section \<open>Assembling\<close>

definition buf_set :: "nat \<Rightarrow> u8 \<Rightarrow> u8 list \<Rightarrow> u8 list run" where
  "buf_set i v buf = (if i < length buf then Ret (buf[i := v]) else Panic IndexOutOfBounds)"

definition write_u32_le :: "nat \<Rightarrow> u32 \<Rightarrow> u8 list \<Rightarrow> u8 list run" where
  "write_u32_le offset value buf =
     rbind (buf_set offset (ucast (value AND 0xFF)) buf) (\<lambda>buf.
     rbind (buf_set (offset + 1) (ucast (drop_bit 8 value AND 0xFF)) buf) (\<lambda>buf.
     rbind (buf_set (offset + 2) (ucast (drop_bit 16 value AND 0xFF)) buf) (\<lambda>buf.
     buf_set (offset + 3) (ucast (drop_bit 24 value AND 0xFF)) buf)))"

text \<open>\<^verbatim>\<open>value as u32\<close> of an \<^verbatim>\<open>i32\<close> keeps the bits.\<close>

definition write_i32_le :: "nat \<Rightarrow> int \<Rightarrow> u8 list \<Rightarrow> u8 list run" where
  "write_i32_le offset value buf = write_u32_le offset (of_int value) buf"

definition emit_mov_imm32 :: "u8 \<Rightarrow> u32 \<Rightarrow> u8 list \<times> nat \<Rightarrow> (u8 list \<times> nat) run" where
  "emit_mov_imm32 opcode imm s =
     (let (code, cursor) = s in
      rbind (buf_set cursor opcode code) (\<lambda>code.
      rbind (write_u32_le (cursor + 1) imm code) (\<lambda>code. Ret (code, cursor + 1 + 4))))"

definition emit_int80 :: "u8 list \<times> nat \<Rightarrow> (u8 list \<times> nat) run" where
  "emit_int80 s =
     (let (code, i) = s in
      rbind (buf_set i 0xCD code) (\<lambda>code.
      rbind (buf_set (i + 1) 0x80 code) (\<lambda>code. Ret (code, i + 2))))"

definition emit_jmp :: "nat \<Rightarrow> u8 list \<times> nat \<Rightarrow> (u8 list \<times> nat) run" where
  "emit_jmp loop_start s =
     (let (code, i) = s in
      rbind (buf_set i 0xE9 code) (\<lambda>code.
      let next_ip = int (unat USER_CODE_ADDR) + int i + 5;
          target_ip = int (unat USER_CODE_ADDR) + int loop_start;
          rel = target_ip - next_ip
      in rbind (write_i32_le (i + 1) rel code) (\<lambda>code. Ret (code, i + 5))))"

definition user_msg :: string where
  "user_msg = ''Ring 3 online via isolated user pages + sys_sleep.''"

definition assemble_user_program :: "(u8 list \<times> nat) run" where
  "assemble_user_program =
     rbind (emit_mov_imm32 0xB8 1 (replicate 64 0, 0)) (\<lambda>s.
     rbind (emit_mov_imm32 0xBB USER_MSG_ADDR s) (\<lambda>s.
     rbind (emit_mov_imm32 0xB9 (of_nat (length user_msg)) s) (\<lambda>s.
     rbind (emit_int80 s) (\<lambda>s.
     let loop_start = snd s in
     rbind (emit_mov_imm32 0xB8 3 s) (\<lambda>s.
     rbind (emit_mov_imm32 0xBB 20 s) (\<lambda>s.
     rbind (emit_int80 s) (emit_jmp loop_start)))))))"

text \<open>\<^verbatim>\<open>copy_nonoverlapping\<close> to and \<^verbatim>\<open>write_bytes\<close> at an address.\<close>

definition copy_bytes :: "u32 \<Rightarrow> u8 list \<Rightarrow> memory \<Rightarrow> memory" where
  "copy_bytes dst bs m =
     (\<lambda>a. if unat (a - dst) < length bs then bs ! unat (a - dst) else m a)"

definition install_user_program :: "memory \<Rightarrow> (u32 \<times> memory) run" where
  "install_user_program m =
     (let m = copy_bytes USER_CODE_ADDR (replicate 512 0) m;
          m = copy_bytes USER_MSG_ADDR (replicate 128 0) m;
          m = copy_bytes USER_MSG_ADDR (map (\<lambda>c. of_nat (of_char c)) user_msg) m
      in rbind assemble_user_program (\<lambda>(code, i).
           Ret (USER_CODE_ADDR, copy_bytes USER_CODE_ADDR (take i code) m)))"

text \<open>
  \<^verbatim>\<open>switch_to_user_mode\<close>: the arguments are read from the stack of the caller, the four data
  segment registers are loaded, then the frame for the return to ring 3 is pushed. The result is
  the machine and the selector in ds, es, fs and gs.
\<close>

definition switch_to_user_mode :: "machine \<Rightarrow> machine \<times> u16" where
  "switch_to_user_mode s =
     (let e = r_esp (fst s);
          edx = snd s (e + 4);
          ecx = snd s (e + 8);
          ax = (0x23 :: u16);
          s1 = ((fst s)\<lparr>r_edx := edx, r_ecx := ecx, r_eax := r_eax (fst s) AND 0xFFFF0000 OR ucast ax,
                        r_eflags := r_eflags (fst s) AND NOT 0x200\<rparr>, snd s)
      in (iretd (push edx (push 0x1B (push 0x202 (push ecx (push 0x23 s1))))), ax))"

section \<open>How the processor reads the program\<close>

datatype instr = MovEax u32 | MovEbx u32 | MovEcx u32 | IntN u8 | Jmp u32

definition imm32 :: "memory \<Rightarrow> u32 \<Rightarrow> u32" where
  "imm32 m a = le_word (m a) (m (a + 1)) (m (a + 2)) (m (a + 3))"

definition decode :: "memory \<Rightarrow> u32 \<Rightarrow> (instr \<times> u32) option" where
  "decode m a =
     (if m a = 0xB8 then Some (MovEax (imm32 m (a + 1)), 5)
      else if m a = 0xBB then Some (MovEbx (imm32 m (a + 1)), 5)
      else if m a = 0xB9 then Some (MovEcx (imm32 m (a + 1)), 5)
      else if m a = 0xCD then Some (IntN (m (a + 1)), 2)
      else if m a = 0xE9 then Some (Jmp (imm32 m (a + 1)), 5)
      else None)"

text \<open>
  Running to the next \<^verbatim>\<open>int 0x80\<close>: the registers as the interrupt finds them, with the
  instruction pointer behind it. \<open>None\<close> is another instruction, another interrupt, or too little
  fuel.
\<close>

fun run_to_syscall :: "nat \<Rightarrow> memory \<Rightarrow> cpu \<Rightarrow> cpu option" where
  "run_to_syscall 0 m c = None"
| "run_to_syscall (Suc n) m c =
     (case decode m (r_eip c) of
        None \<Rightarrow> None
      | Some (i, len) \<Rightarrow>
          let next_ip = r_eip c + len in
          (case i of
             MovEax v \<Rightarrow> run_to_syscall n m (c\<lparr>r_eax := v, r_eip := next_ip\<rparr>)
           | MovEbx v \<Rightarrow> run_to_syscall n m (c\<lparr>r_ebx := v, r_eip := next_ip\<rparr>)
           | MovEcx v \<Rightarrow> run_to_syscall n m (c\<lparr>r_ecx := v, r_eip := next_ip\<rparr>)
           | Jmp rel \<Rightarrow> run_to_syscall n m (c\<lparr>r_eip := next_ip + rel\<rparr>)
           | IntN v \<Rightarrow> if v = 0x80 then Some (c\<lparr>r_eip := next_ip\<rparr>) else None))"

text \<open>
  The first \<open>n\<close> system calls of a program, as number and first two arguments; \<open>res k\<close> is what the
  \<open>k\<close>-th call returns in \<^verbatim>\<open>eax\<close>. Four instructions and a jump are the longest way to a call.
\<close>

fun user_calls :: "nat \<Rightarrow> memory \<Rightarrow> (nat \<Rightarrow> u32) \<Rightarrow> cpu \<Rightarrow> (u32 \<times> u32 \<times> u32) list option" where
  "user_calls 0 m res c = Some []"
| "user_calls (Suc n) m res c =
     (case run_to_syscall 5 m c of
        None \<Rightarrow> None
      | Some c' \<Rightarrow> map_option (Cons (r_eax c', r_ebx c', r_ecx c'))
                     (user_calls n m (\<lambda>k. res (Suc k)) (c'\<lparr>r_eax := res 0\<rparr>)))"

section \<open>The assembled bytes\<close>

lemma byte_of_word: "(ucast (v AND 0xFF) :: u8) = ucast v" for v :: u32
proof -
  have "v AND 0xFF = take_bit 8 v" by (simp add: take_bit_eq_mask mask_eq_exp_minus_1)
  then have "(ucast (v AND 0xFF) :: u8) = ucast (take_bit 8 v)" by (rule arg_cong)
  also have "\<dots> = ucast v" by (auto intro!: bit_word_eqI simp: bit_ucast_iff bit_take_bit_iff)
  finally show ?thesis .
qed

lemma write_u32_le_stores:
  "offset + 3 < length buf \<Longrightarrow> write_u32_le offset v buf = Ret (store_le buf offset v)"
  by (simp add: write_u32_le_def buf_set_def store_le_def byte_of_word)

lemma store_le_append:
  "store_le (pre @ a # b # c # d # post) (length pre) v = pre @ u32_le v @ post"
  by (simp add: store_le_def u32_le_def list_update_append)

text \<open>The code array with \<open>pre\<close> emitted, \<open>k\<close> bytes left and the cursor between them.\<close>

definition emitted :: "u8 list \<Rightarrow> nat \<Rightarrow> u8 list \<times> nat" where
  "emitted pre k = (pre @ replicate k 0, length pre)"

lemma emit_mov_blank:
  assumes "5 \<le> k"
  shows "emit_mov_imm32 op v (emitted pre k) = Ret (emitted (pre @ op # u32_le v) (k - 5))"
proof -
  obtain j where "k = 5 + j" using assms by (metis le_Suc_ex)
  then have "replicate k (0 :: u8) = 0 # 0 # 0 # 0 # 0 # replicate (k - 5) 0"
    by (simp add: numeral_eq_Suc)
  then show ?thesis
    using store_le_append [of "pre @ [op]" 0 0 0 0 "replicate (k - 5) 0" v]
    by (simp add: emitted_def emit_mov_imm32_def buf_set_def list_update_append write_u32_le_stores)
qed

lemma emit_int_blank:
  assumes "2 \<le> k"
  shows "emit_int80 (emitted pre k) = Ret (emitted (pre @ [0xCD, 0x80]) (k - 2))"
proof -
  obtain j where "k = 2 + j" using assms by (metis le_Suc_ex)
  then have "replicate k (0 :: u8) = 0 # 0 # replicate (k - 2) 0"
    by (simp add: numeral_eq_Suc)
  then show ?thesis by (simp add: emitted_def emit_int80_def buf_set_def list_update_append)
qed

lemma emit_jmp_blank:
  assumes "5 \<le> k"
  shows "emit_jmp l (emitted pre k) =
    Ret (emitted (pre @ 0xE9 # u32_le (of_int (int l - int (length pre) - 5))) (k - 5))"
proof -
  obtain j where "k = 5 + j" using assms by (metis le_Suc_ex)
  then have "replicate k (0 :: u8) = 0 # 0 # 0 # 0 # 0 # replicate (k - 5) 0"
    by (simp add: numeral_eq_Suc)
  then show ?thesis
    using store_le_append [of "pre @ [0xE9]" 0 0 0 0 "replicate (k - 5) 0"
        "of_int (int l - int (length pre) - 5)"]
    by (simp add: emitted_def emit_jmp_def buf_set_def list_update_append write_i32_le_def write_u32_le_stores
        Let_def algebra_simps)
qed

definition user_code :: "u8 list" where
  "user_code =
     0xB8 # u32_le 1 @ 0xBB # u32_le USER_MSG_ADDR @ 0xB9 # u32_le 50 @ [0xCD, 0x80] @
     0xB8 # u32_le 3 @ 0xBB # u32_le 20 @ [0xCD, 0x80] @ 0xE9 # u32_le (- 17)"

lemma length_user_msg: "length user_msg = 50"
  by (simp add: user_msg_def)

lemma assembled: "assemble_user_program = Ret (emitted user_code 30)"
proof -
  have "(replicate 64 0, 0) = emitted [] 64" by (simp add: emitted_def)
  moreover have "snd (emitted pre k) = length pre" for pre k by (simp add: emitted_def)
  ultimately show ?thesis
    by (simp add: assemble_user_program_def length_user_msg emit_mov_blank emit_int_blank emit_jmp_blank
        user_code_def)
qed

lemma copy_bytes_at:
  assumes "i < length bs" "length bs < 2 ^ 32"
  shows "copy_bytes d bs m (d + of_nat i) = bs ! i"
  using assms by (simp add: copy_bytes_def unat_of_nat)

lemma copy_bytes_outside: "length bs \<le> unat (a - d) \<Longrightarrow> copy_bytes d bs m a = m a"
  by (simp add: copy_bytes_def)

lemma imm32_copied:
  assumes "bs = pre @ u32_le v @ post" "length bs < 2 ^ 32"
  shows "imm32 (copy_bytes d bs m) (d + of_nat (length pre)) = v"
proof -
  have at: "copy_bytes d bs m (d + of_nat (length pre) + of_nat j) = u32_le v ! j" if "j < 4" for j
    using assms that copy_bytes_at [of "length pre + j" bs d m] by (simp add: nth_append add.assoc)
  show ?thesis
    using at [of 0] at [of 1] at [of 2] at [of 3]
    by (simp add: imm32_def u32_le_def le_word_split)
qed

lemma decode_copied:
  fixes d :: u32
  assumes "bs = pre @ op # u32_le v @ post" "length bs < 2 ^ 32" "e = d + of_nat (length pre)"
  shows "op = 0xB8 \<Longrightarrow> decode (copy_bytes d bs m) e = Some (MovEax v, 5)"
    and "op = 0xBB \<Longrightarrow> decode (copy_bytes d bs m) e = Some (MovEbx v, 5)"
    and "op = 0xB9 \<Longrightarrow> decode (copy_bytes d bs m) e = Some (MovEcx v, 5)"
    and "op = 0xE9 \<Longrightarrow> decode (copy_bytes d bs m) e = Some (Jmp v, 5)"
proof -
  have "imm32 (copy_bytes d bs m) (e + 1) = v"
    using assms imm32_copied [of bs "pre @ [op]" v post d m] by (simp add: ac_simps)
  moreover have "copy_bytes d bs m e = op"
    using assms copy_bytes_at [of "length pre" bs d m] by simp
  ultimately show "op = 0xB8 \<Longrightarrow> decode (copy_bytes d bs m) e = Some (MovEax v, 5)"
    and "op = 0xBB \<Longrightarrow> decode (copy_bytes d bs m) e = Some (MovEbx v, 5)"
    and "op = 0xB9 \<Longrightarrow> decode (copy_bytes d bs m) e = Some (MovEcx v, 5)"
    and "op = 0xE9 \<Longrightarrow> decode (copy_bytes d bs m) e = Some (Jmp v, 5)"
    by (simp_all add: decode_def)
qed

lemma decode_int_copied:
  fixes d :: u32
  assumes "bs = pre @ 0xCD # 0x80 # post" "length bs < 2 ^ 32" "e = d + of_nat (length pre)"
  shows "decode (copy_bytes d bs m) e = Some (IntN 0x80, 2)"
proof -
  have "copy_bytes d bs m (e + 1) = 0x80"
    using assms copy_bytes_at [of "length pre + 1" bs d m] by (simp add: nth_append ac_simps)
  moreover have "copy_bytes d bs m e = 0xCD"
    using assms copy_bytes_at [of "length pre" bs d m] by simp
  ultimately show ?thesis by (simp add: decode_def)
qed

lemmas user_layout = user_code_def USER_CODE_ADDR_def USER_SPACE_START_def

lemma user_code_decoded:
  fixes m :: memory
  defines "M \<equiv> copy_bytes USER_CODE_ADDR user_code m"
  shows "decode M 0x400000 = Some (MovEax 1, 5)"
    and "decode M 0x400005 = Some (MovEbx USER_MSG_ADDR, 5)"
    and "decode M 0x40000A = Some (MovEcx 50, 5)"
    and "decode M 0x40000F = Some (IntN 0x80, 2)"
    and "decode M 0x400011 = Some (MovEax 3, 5)"
    and "decode M 0x400016 = Some (MovEbx 20, 5)"
    and "decode M 0x40001B = Some (IntN 0x80, 2)"
    and "decode M 0x40001D = Some (Jmp (- 17), 5)"
  unfolding M_def
         apply (rule decode_copied(1) [of _ "[]" _ _ "drop 5 user_code"]; simp add: user_layout)
        apply (rule decode_copied(2) [of _ "take 5 user_code" _ _ "drop 10 user_code"]; simp add: user_layout)
       apply (rule decode_copied(3) [of _ "take 10 user_code" _ _ "drop 15 user_code"]; simp add: user_layout)
      apply (rule decode_int_copied [of _ "take 15 user_code" "drop 17 user_code"]; simp add: user_layout)
     apply (rule decode_copied(1) [of _ "take 17 user_code" _ _ "drop 22 user_code"]; simp add: user_layout)
    apply (rule decode_copied(2) [of _ "take 22 user_code" _ _ "drop 27 user_code"]; simp add: user_layout)
   apply (rule decode_int_copied [of _ "take 27 user_code" "drop 29 user_code"]; simp add: user_layout)
  apply (rule decode_copied(4) [of _ "take 29 user_code" _ _ "[]"]; simp add: user_layout)
  done

lemma five_steps: "(5 :: nat) = Suc (Suc (Suc (Suc (Suc 0))))"
  by simp

lemma runs_to_print:
  "run_to_syscall 5 (copy_bytes USER_CODE_ADDR user_code m) (c\<lparr>r_eip := 0x400000\<rparr>) =
     Some (c\<lparr>r_eax := 1, r_ebx := USER_MSG_ADDR, r_ecx := 50, r_eip := 0x400011\<rparr>)"
  unfolding five_steps by (simp add: user_code_decoded)

lemma enters_to_print:
  "run_to_syscall 5 (copy_bytes USER_CODE_ADDR user_code m) (c\<lparr>r_eip := USER_CODE_ADDR\<rparr>) =
     Some (c\<lparr>r_eax := 1, r_ebx := USER_MSG_ADDR, r_ecx := 50, r_eip := 0x400011\<rparr>)"
proof -
  have "USER_CODE_ADDR = 0x400000" by (simp add: USER_CODE_ADDR_def USER_SPACE_START_def)
  then show ?thesis using runs_to_print by simp
qed

lemma runs_to_sleep:
  "r_eip c = 0x400011 \<or> r_eip c = 0x40001D \<Longrightarrow>
     run_to_syscall 5 (copy_bytes USER_CODE_ADDR user_code m) c =
       Some (c\<lparr>r_eax := 3, r_ebx := 20, r_eip := 0x40001D\<rparr>)"
  unfolding five_steps by (elim disjE) (simp_all add: user_code_decoded)

lemma sleeps_forever:
  "r_eip c = 0x400011 \<or> r_eip c = 0x40001D \<Longrightarrow>
     user_calls n (copy_bytes USER_CODE_ADDR user_code m) res c = Some (replicate n (3, 20, r_ecx c))"
  by (induction n arbitrary: c res) (simp_all add: runs_to_sleep)

lemma installed:
  "install_user_program m =
     Ret (USER_CODE_ADDR, copy_bytes USER_CODE_ADDR user_code
       (copy_bytes USER_MSG_ADDR (map (\<lambda>c. of_nat (of_char c)) user_msg)
         (copy_bytes USER_MSG_ADDR (replicate 128 0) (copy_bytes USER_CODE_ADDR (replicate 512 0) m))))"
  by (simp add: install_user_program_def assembled emitted_def user_code_def Let_def)

lemma length_user_code: "length user_code = 34"
  by (simp add: user_code_def)

lemma message_above_code:
  assumes "i < 50"
  shows "unat (USER_MSG_ADDR + of_nat i - USER_CODE_ADDR) = 0x100 + i"
proof -
  have "USER_MSG_ADDR + of_nat i - USER_CODE_ADDR = of_nat (0x100 + i)"
    by (simp add: USER_MSG_ADDR_def USER_CODE_ADDR_def)
  then have "unat (USER_MSG_ADDR + of_nat i - USER_CODE_ADDR) = (0x100 + i) mod 2 ^ 32"
    by (simp only: unat_of_nat) simp
  then show ?thesis using assms by simp
qed

lemma message_in_memory:
  assumes "length msg = 50"
  shows "from_raw_parts (copy_bytes USER_CODE_ADDR user_code (copy_bytes USER_MSG_ADDR msg m))
    USER_MSG_ADDR 50 = msg"
proof (rule nth_equalityI)
  fix i
  assume "i < length (from_raw_parts (copy_bytes USER_CODE_ADDR user_code
    (copy_bytes USER_MSG_ADDR msg m)) USER_MSG_ADDR 50)"
  then have i: "i < 50" by (simp add: from_raw_parts_def)
  have "copy_bytes USER_CODE_ADDR user_code (copy_bytes USER_MSG_ADDR msg m) (USER_MSG_ADDR + of_nat i) =
      copy_bytes USER_MSG_ADDR msg m (USER_MSG_ADDR + of_nat i)"
    by (rule copy_bytes_outside) (simp add: message_above_code [OF i] length_user_code)
  also have "\<dots> = msg ! i" using i assms by (intro copy_bytes_at) simp_all
  finally show "from_raw_parts (copy_bytes USER_CODE_ADDR user_code (copy_bytes USER_MSG_ADDR msg m))
      USER_MSG_ADDR 50 ! i = msg ! i"
    using i by (simp add: from_raw_parts_def)
qed (simp add: from_raw_parts_def assms)

lemma message_is_text:
  "utf8_valid (map (\<lambda>c. of_nat (of_char c)) user_msg)"
  "map (byte_char \<circ> (\<lambda>c. of_nat (of_char c))) user_msg = user_msg"
   apply (rule ascii_utf8, simp add: user_msg_def between_def)
  apply (rule map_idI, simp add: byte_char_def unat_of_nat)
  done

text \<open>The memory after the installation.\<close>

definition user_memory_after :: "memory \<Rightarrow> memory" where
  "user_memory_after m =
     copy_bytes USER_CODE_ADDR user_code
       (copy_bytes USER_MSG_ADDR (map (\<lambda>c. of_nat (of_char c)) user_msg)
         (copy_bytes USER_MSG_ADDR (replicate 128 0) (copy_bytes USER_CODE_ADDR (replicate 512 0) m)))"

lemma installed_program:
  "install_user_program m = Ret (USER_CODE_ADDR, user_memory_after m)"
  by (simp add: installed user_memory_after_def)

lemma program_calls:
  assumes "r_eip c = USER_CODE_ADDR"
  shows "user_calls (Suc n) (user_memory_after m) res c =
    Some ((1, USER_MSG_ADDR, 50) # replicate n (3, 20, 50))"
proof -
  have "c = c\<lparr>r_eip := USER_CODE_ADDR\<rparr>" using assms by simp
  then have "run_to_syscall 5 (user_memory_after m) c =
      Some (c\<lparr>r_eax := 1, r_ebx := USER_MSG_ADDR, r_ecx := 50, r_eip := 0x400011\<rparr>)"
    using enters_to_print [of _ c] unfolding user_memory_after_def by metis
  then show ?thesis by (simp add: user_memory_after_def sleeps_forever)
qed

lemma message_printed:
  "sys_print (user_memory_after m) USER_MSG_ADDR 50 =
    (0, [Screen (''[Ring 3] '' @ user_msg @ [newline]),
         Serial (''[Syscall SYS_PRINT] '' @ user_msg @ [newline])])"
  unfolding user_memory_after_def
  by (simp add: sys_print_contract message_in_memory length_user_msg message_is_text Let_def)
    (simp add: USER_MSG_ADDR_def USER_SPACE_START_def)

lemma switch_enters_ring3:
  fixes s :: machine
  defines "t \<equiv> fst (switch_to_user_mode s)"
  shows "r_eip (fst t) = snd s (r_esp (fst s) + 4)" "r_esp (fst t) = snd s (r_esp (fst s) + 8)"
    and "r_cs (fst t) = 0x1B" "r_ss (fst t) = 0x23" "r_eflags (fst t) = 0x202"
    and "user_selector (r_cs (fst t))" "snd (switch_to_user_mode s) = 0x23"
    and "a \<notin> set (map (\<lambda>k. r_esp (fst s) - 4 * k) [1, 2, 3, 4, 5]) \<Longrightarrow> snd t a = snd s a"
  unfolding t_def switch_to_user_mode_def
  by (simp_all add: Let_def iretd_def push_def user_selector_def)

section \<open>Properties\<close>

text \<open>C20: the program the kernel assembles is the one it means to run. The assembler never runs
  over its array, and a processor entering the installed bytes makes exactly these system calls,
  whatever they return and however many are observed: one print of the message, whose 50 bytes
  the dispatcher accepts and shows on both consoles, and then sleeps of twenty ticks for
  ever.\<close>

theorem user_program_runs:
  "\<exists>M. install_user_program m = Ret (USER_CODE_ADDR, M) \<and>
     (\<forall>n res c. user_calls (Suc n) M res (c\<lparr>r_eip := USER_CODE_ADDR\<rparr>) =
        Some ((1, USER_MSG_ADDR, 50) # replicate n (3, 20, 50))) \<and>
     sys_print M USER_MSG_ADDR 50 =
       (0, [Screen (''[Ring 3] '' @ user_msg @ [newline]),
            Serial (''[Syscall SYS_PRINT] '' @ user_msg @ [newline])])"
  by (intro exI conjI allI, rule installed_program, rule program_calls, simp, rule message_printed)

end
