(* ===== verification/Calc_Parser.thy ===== *)
theory Calc_Parser
  imports Text_Fmt "HOL-Library.Signed_Division"
begin

text \<open>
  The expression evaluator behind the shell's \<^verbatim>\<open>calc\<close> command (\<^verbatim>\<open>CalcParser\<close> in
  \<^verbatim>\<open>src/src/shell.rs\<close>): a recursive-descent parser that computes in checked 64-bit signed
  arithmetic while it reads. The parser's state, a byte slice and a position that only moves
  forward, is the unread suffix of the slice. An \<^verbatim>\<open>i64\<close> is an integer, and every operation
  is followed by the range check its \<^verbatim>\<open>checked_*\<close> method makes.

  The specification is a grammar with arbitrary white space between tokens, and an evaluator
  on its abstract syntax; the parser accepts exactly the grammar and returns what the
  evaluator returns, its error included.
\<close>

section \<open>Checked 64-bit arithmetic\<close>

type_synonym 'a calc_result = "string + 'a"

definition in_i64 :: "int \<Rightarrow> bool" where
  "in_i64 k \<longleftrightarrow> - (2 ^ 63) \<le> k \<and> k < 2 ^ 63"

definition ok_or_overflow :: "int \<Rightarrow> int calc_result" where
  "ok_or_overflow k = (if in_i64 k then Inr k else Inl ''integer overflow'')"

definition checked_rem :: "int \<Rightarrow> int \<Rightarrow> int calc_result" where
  "checked_rem v rhs =
     (if v = - (2 ^ 63) \<and> rhs = - 1 then Inl ''integer overflow'' else Inr (v smod rhs))"

section \<open>The parser\<close>

definition skip_ws :: "string \<Rightarrow> string" where
  "skip_ws s = dropWhile is_ascii_whitespace s"

definition consume :: "char \<Rightarrow> string \<Rightarrow> bool \<times> string" where
  "consume ch s =
     (case skip_ws s of
        [] \<Rightarrow> (False, [])
      | c # cs \<Rightarrow> if c = ch then (True, cs) else (False, c # cs))"

fun number_loop :: "bool \<Rightarrow> int \<Rightarrow> string \<Rightarrow> (int \<times> string) calc_result" where
  "number_loop has_digit value [] =
     (if has_digit then Inr (value, []) else Inl ''expected number'')"
| "number_loop has_digit value (b # bs) =
     (if \<not> is_ascii_digit b
      then (if has_digit then Inr (value, b # bs) else Inl ''expected number'')
      else case ok_or_overflow (value * 10) of
             Inl e \<Rightarrow> Inl e
           | Inr v1 \<Rightarrow>
              (case ok_or_overflow (v1 + int (digit_val b)) of
                 Inl e \<Rightarrow> Inl e
               | Inr v2 \<Rightarrow> number_loop True v2 bs))"

definition parse_number :: "string \<Rightarrow> (int \<times> string) calc_result" where
  "parse_number s = number_loop False 0 (skip_ws s)"

function (sequential) parse_expr :: "string \<Rightarrow> (int \<times> string) calc_result"
  and expr_loop :: "int \<Rightarrow> string \<Rightarrow> (int \<times> string) calc_result"
  and parse_term :: "string \<Rightarrow> (int \<times> string) calc_result"
  and term_loop :: "int \<Rightarrow> string \<Rightarrow> (int \<times> string) calc_result"
  and parse_factor :: "string \<Rightarrow> (int \<times> string) calc_result" where
  "parse_expr s =
     (case parse_term s of Inl e \<Rightarrow> Inl e | Inr (v, s') \<Rightarrow> expr_loop v s')"
| "expr_loop v s =
     (case consume CHR ''+'' s of
        (True, s1) \<Rightarrow>
          (case parse_term s1 of Inl e \<Rightarrow> Inl e | Inr (rhs, s2) \<Rightarrow>
            (case ok_or_overflow (v + rhs) of Inl e \<Rightarrow> Inl e | Inr v' \<Rightarrow> expr_loop v' s2))
      | (False, s1) \<Rightarrow>
          (case consume CHR ''-'' s1 of
             (True, s2) \<Rightarrow>
               (case parse_term s2 of Inl e \<Rightarrow> Inl e | Inr (rhs, s3) \<Rightarrow>
                 (case ok_or_overflow (v - rhs) of Inl e \<Rightarrow> Inl e | Inr v' \<Rightarrow> expr_loop v' s3))
           | (False, s2) \<Rightarrow> Inr (v, s2)))"
| "parse_term s =
     (case parse_factor s of Inl e \<Rightarrow> Inl e | Inr (v, s') \<Rightarrow> term_loop v s')"
| "term_loop v s =
     (case consume CHR ''*'' s of
        (True, s1) \<Rightarrow>
          (case parse_factor s1 of Inl e \<Rightarrow> Inl e | Inr (rhs, s2) \<Rightarrow>
            (case ok_or_overflow (v * rhs) of Inl e \<Rightarrow> Inl e | Inr v' \<Rightarrow> term_loop v' s2))
      | (False, s1) \<Rightarrow>
          (case consume CHR ''/'' s1 of
             (True, s2) \<Rightarrow>
               (case parse_factor s2 of Inl e \<Rightarrow> Inl e | Inr (rhs, s3) \<Rightarrow>
                 (if rhs = 0 then Inl ''division by zero''
                  else case ok_or_overflow (v sdiv rhs) of Inl e \<Rightarrow> Inl e
                         | Inr v' \<Rightarrow> term_loop v' s3))
           | (False, s2) \<Rightarrow>
               (case consume CHR ''%'' s2 of
                  (True, s3) \<Rightarrow>
                    (case parse_factor s3 of Inl e \<Rightarrow> Inl e | Inr (rhs, s4) \<Rightarrow>
                      (if rhs = 0 then Inl ''division by zero''
                       else case checked_rem v rhs of Inl e \<Rightarrow> Inl e
                              | Inr v' \<Rightarrow> term_loop v' s4))
                | (False, s3) \<Rightarrow> Inr (v, s3))))"
| "parse_factor s =
     (case consume CHR ''+'' s of
        (True, s1) \<Rightarrow> parse_factor s1
      | (False, s1) \<Rightarrow>
          (case consume CHR ''-'' s1 of
             (True, s2) \<Rightarrow>
               (case parse_factor s2 of Inl e \<Rightarrow> Inl e | Inr (v, s3) \<Rightarrow>
                 (case ok_or_overflow (- v) of Inl e \<Rightarrow> Inl e | Inr v' \<Rightarrow> Inr (v', s3)))
           | (False, s2) \<Rightarrow>
               (case consume CHR ''('' s2 of
                  (True, s3) \<Rightarrow>
                    (case parse_expr s3 of Inl e \<Rightarrow> Inl e | Inr (v, s4) \<Rightarrow>
                      (case consume CHR '')'' s4 of
                         (True, s5) \<Rightarrow> Inr (v, s5)
                       | (False, s5) \<Rightarrow> Inl (''missing closing '' @ [CHR 0x27, CHR '')'', CHR 0x27])))
                | (False, s3) \<Rightarrow> parse_number s3)))"
  by pat_completeness auto

lemma length_skip_ws: "length (skip_ws s) \<le> length s"
  by (simp add: skip_ws_def length_dropWhile_le)

lemma consume_True: "consume ch s = (True, s') \<Longrightarrow> length s' < length s"
  using length_skip_ws [of s] by (auto simp: consume_def split: list.splits if_splits)

lemma consume_False: "consume ch s = (False, s') \<Longrightarrow> s' = skip_ws s"
  by (auto simp: consume_def split: list.splits if_splits)

lemma consume_False_le: "consume ch s = (False, s') \<Longrightarrow> length s' \<le> length s"
  by (auto dest: consume_False simp: length_skip_ws)

lemma number_loop_length:
  "number_loop d v s = Inr (v', r) \<Longrightarrow>
   length r \<le> length s \<and> (\<not> d \<longrightarrow> length r < length s)"
proof (induction d v s rule: number_loop.induct)
  case (2 d v b bs)
  then show ?case by (fastforce split: if_splits sum.splits)
qed (auto split: if_splits)

lemma parse_number_length: "parse_number s = Inr (v, r) \<Longrightarrow> length r < length s"
  using number_loop_length [of False 0 "skip_ws s" v r] length_skip_ws [of s]
  by (simp add: parse_number_def)

text \<open>
  Every call that returns leaves a shorter suffix than it was given. The parser is built from
  three shapes of case distinction; each has a rule, so the bound follows the code.
\<close>

definition returns :: "(int \<Rightarrow> string \<Rightarrow> bool) \<Rightarrow> (int \<times> string) calc_result \<Rightarrow> bool" where
  "returns P res \<longleftrightarrow> (\<forall>v r. res = Inr (v, r) \<longrightarrow> P v r)"

abbreviation leaves :: "nat \<Rightarrow> (int \<times> string) calc_result \<Rightarrow> bool" where
  "leaves n \<equiv> returns (\<lambda>v r. length r < n)"

lemma returns_value: "P v r \<Longrightarrow> returns P (Inr (v, r))"
  by (simp add: returns_def)

lemma returns_error: "returns P (Inl e)"
  by (simp add: returns_def)

lemma returns_bind:
  assumes "returns Q res" and "\<And>v r. res = Inr (v, r) \<Longrightarrow> Q v r \<Longrightarrow> returns P (f v r)"
  shows "returns P (case res of Inl e \<Rightarrow> Inl e | Inr (v, r) \<Rightarrow> f v r)"
  using assms by (cases res) (auto simp: returns_def)

lemma returns_checked:
  assumes "\<And>v. res = Inr v \<Longrightarrow> returns P (f v)"
  shows "returns P (case res of Inl e \<Rightarrow> Inl e | Inr v \<Rightarrow> f v)"
  using assms by (cases res) (auto simp: returns_def)

lemma returns_if: "(b \<Longrightarrow> returns P x) \<Longrightarrow> (\<not> b \<Longrightarrow> returns P y) \<Longrightarrow> returns P (if b then x else y)"
  by simp

lemma returns_consume:
  assumes "\<And>r. consume ch s = (True, r) \<Longrightarrow> returns P (f r)"
    and "\<And>r. consume ch s = (False, r) \<Longrightarrow> returns P (g r)"
  shows "returns P (case consume ch s of (True, r) \<Rightarrow> f r | (False, r) \<Rightarrow> g r)"
  using assms by (auto split: prod.splits bool.splits)

lemma returns_weaken: "returns Q res \<Longrightarrow> (\<And>v r. Q v r \<Longrightarrow> P v r) \<Longrightarrow> returns P res"
  by (auto simp: returns_def)

lemma leaves_consume:
  assumes "\<And>r. consume ch s = (True, r) \<Longrightarrow> length r < length s \<Longrightarrow> leaves n (f r)"
    and "\<And>r. consume ch s = (False, r) \<Longrightarrow> length r \<le> length s \<Longrightarrow> leaves n (g r)"
  shows "leaves n (case consume ch s of (True, r) \<Rightarrow> f r | (False, r) \<Rightarrow> g r)"
  by (rule returns_consume) (auto intro: assms dest: consume_True consume_False_le)

lemma leaves_number: "length s \<le> n \<Longrightarrow> leaves n (parse_number s)"
  using parse_number_length [of s] by (fastforce simp: returns_def)

lemma leaves_weaken: "leaves m res \<Longrightarrow> m \<le> n \<Longrightarrow> leaves n res"
  by (auto simp: returns_def)

lemmas parser_pinduct = parse_expr_expr_loop_parse_term_term_loop_parse_factor.pinduct

lemma leaves_pinduct:
  "parse_expr_expr_loop_parse_term_term_loop_parse_factor_dom (Inl (Inl s)) \<Longrightarrow>
     leaves (length s) (parse_expr s)"
  "parse_expr_expr_loop_parse_term_term_loop_parse_factor_dom (Inl (Inr (v, s))) \<Longrightarrow>
     leaves (Suc (length s)) (expr_loop v s)"
  "parse_expr_expr_loop_parse_term_term_loop_parse_factor_dom (Inr (Inl s)) \<Longrightarrow>
     leaves (length s) (parse_term s)"
  "parse_expr_expr_loop_parse_term_term_loop_parse_factor_dom (Inr (Inr (Inl (v, s)))) \<Longrightarrow>
     leaves (Suc (length s)) (term_loop v s)"
  "parse_expr_expr_loop_parse_term_term_loop_parse_factor_dom (Inr (Inr (Inr s))) \<Longrightarrow>
     leaves (length s) (parse_factor s)"
proof (induction rule: parser_pinduct)
  case (1 s)
  show ?case
    unfolding parse_expr.psimps [OF 1(1)]
    by (rule returns_bind [OF 1(2)], rule leaves_weaken, rule 1(3)) auto
next
  case (2 v s)
  show ?case
    unfolding expr_loop.psimps [OF 2(1)]
    apply (intro leaves_consume)
    subgoal by (rule returns_bind [OF 2(2) [OF sym refl]], assumption, rule returns_checked,
          rule leaves_weaken, rule 2(3) [OF sym refl _ refl]) auto
    subgoal by (rule returns_bind [OF 2(4) [OF sym refl sym refl]], assumption, assumption,
          rule returns_checked, rule leaves_weaken, rule 2(5) [OF sym refl sym refl _ refl]) auto
    subgoal by (rule returns_value) simp
    done
next
  case (3 s)
  show ?case
    unfolding parse_term.psimps [OF 3(1)]
    by (rule returns_bind [OF 3(2)], rule leaves_weaken, rule 3(3)) auto
next
  case (4 v s)
  show ?case
    unfolding term_loop.psimps [OF 4(1)]
    apply (intro leaves_consume)
    subgoal by (rule returns_bind [OF 4(2) [OF sym refl]], assumption, rule returns_checked,
          rule leaves_weaken, rule 4(3) [OF sym refl _ refl]) auto
    subgoal by (rule returns_bind [OF 4(4) [OF sym refl sym refl]], assumption, assumption,
          intro returns_if returns_error returns_checked, rule leaves_weaken,
          rule 4(5) [OF sym refl sym refl _ refl]) auto
    subgoal by (rule returns_bind [OF 4(6) [OF sym refl sym refl sym refl]], assumption,
          assumption, assumption, intro returns_if returns_error returns_checked,
          rule leaves_weaken, rule 4(7) [OF sym refl sym refl sym refl _ refl]) auto
    subgoal by (rule returns_value) simp
    done
next
  case (5 s)
  show ?case
    unfolding parse_factor.psimps [OF 5(1)]
    apply (intro leaves_consume)
    subgoal by (rule leaves_weaken, rule 5(2) [OF sym refl]) auto
    subgoal by (rule returns_bind [OF 5(3) [OF sym refl sym refl]], assumption, assumption,
          rule returns_checked, rule returns_value) simp
    subgoal by (rule returns_bind [OF 5(4) [OF sym refl sym refl sym refl]], assumption,
          assumption, assumption, intro leaves_consume returns_error returns_value) simp
    subgoal by (rule leaves_number) simp
    done
qed

text \<open>Every call passes on a shorter suffix, or the same one to a lower level of the grammar.\<close>

termination parse_expr
proof (relation "measure (\<lambda>x. case x of
      Inl (Inl s) \<Rightarrow> 3 * length s + 2 | Inl (Inr (v, s)) \<Rightarrow> 3 * length s + 2
    | Inr (Inl s) \<Rightarrow> 3 * length s + 1 | Inr (Inr (Inl (v, s))) \<Rightarrow> 3 * length s + 1
    | Inr (Inr (Inr s)) \<Rightarrow> 3 * length s)", goal_cases)
  case 1 then show ?case by simp
qed (auto dest!: leaves_pinduct consume_True [OF sym] consume_False_le [OF sym] simp: returns_def)

declare parse_expr.simps [simp del] expr_loop.simps [simp del] parse_term.simps [simp del]
  term_loop.simps [simp del] parse_factor.simps [simp del]

definition eval_calc_expression :: "string \<Rightarrow> int calc_result" where
  "eval_calc_expression expr =
     (case parse_expr expr of
        Inl e \<Rightarrow> Inl e
      | Inr (value, rest) \<Rightarrow>
          if skip_ws rest \<noteq> [] then Inl ''unexpected trailing input'' else Inr value)"

section \<open>Grammar and meaning\<close>

text \<open>
  Abstract syntax: a sum is a term followed by signed terms, a term is a factor followed by
  multiplications, divisions and remainders; both chains are evaluated from the left.
\<close>

datatype addop = OpAdd | OpSub
datatype mulop = OpMul | OpDiv | OpRem

datatype expr = Expr "term" adds
  and adds = ANil | ACons addop "term" adds
  and "term" = Term factor muls
  and muls = MNil | MCons mulop factor muls
  and factor = FNum nat | FPos factor | FNeg factor | FParen expr

fun apply_add :: "addop \<Rightarrow> int \<Rightarrow> int \<Rightarrow> int calc_result" where
  "apply_add OpAdd a b = ok_or_overflow (a + b)"
| "apply_add OpSub a b = ok_or_overflow (a - b)"

fun apply_mul :: "mulop \<Rightarrow> int \<Rightarrow> int \<Rightarrow> int calc_result" where
  "apply_mul OpMul a b = ok_or_overflow (a * b)"
| "apply_mul OpDiv a b =
     (if b = 0 then Inl ''division by zero'' else ok_or_overflow (a sdiv b))"
| "apply_mul OpRem a b = (if b = 0 then Inl ''division by zero'' else checked_rem a b)"

definition and_then :: "'a calc_result \<Rightarrow> ('a \<Rightarrow> 'b calc_result) \<Rightarrow> 'b calc_result" where
  "and_then r f = (case r of Inl e \<Rightarrow> Inl e | Inr v \<Rightarrow> f v)"

primrec eval_expr :: "expr \<Rightarrow> int calc_result"
  and eval_adds :: "adds \<Rightarrow> int \<Rightarrow> int calc_result"
  and eval_term :: "term \<Rightarrow> int calc_result"
  and eval_muls :: "muls \<Rightarrow> int \<Rightarrow> int calc_result"
  and eval_factor :: "factor \<Rightarrow> int calc_result" where
  "eval_expr (Expr t as) = and_then (eval_term t) (eval_adds as)"
| "eval_adds ANil = (\<lambda>v. Inr v)"
| "eval_adds (ACons aop t as) =
     (\<lambda>v. and_then (eval_term t) (\<lambda>rhs. and_then (apply_add aop v rhs) (eval_adds as)))"
| "eval_term (Term f ms) = and_then (eval_factor f) (eval_muls ms)"
| "eval_muls MNil = (\<lambda>v. Inr v)"
| "eval_muls (MCons mop f ms) =
     (\<lambda>v. and_then (eval_factor f) (\<lambda>rhs. and_then (apply_mul mop v rhs) (eval_muls ms)))"
| "eval_factor (FNum n) = ok_or_overflow (int n)"
| "eval_factor (FPos f) = eval_factor f"
| "eval_factor (FNeg f) = and_then (eval_factor f) (\<lambda>v. ok_or_overflow (- v))"
| "eval_factor (FParen e) = eval_expr e"

primrec add_char :: "addop \<Rightarrow> char" where
  "add_char OpAdd = CHR ''+''"
| "add_char OpSub = CHR ''-''"

primrec mul_char :: "mulop \<Rightarrow> char" where
  "mul_char OpMul = CHR ''*''"
| "mul_char OpDiv = CHR ''/''"
| "mul_char OpRem = CHR ''%''"

definition blank :: "string \<Rightarrow> bool" where
  "blank w \<longleftrightarrow> list_all is_ascii_whitespace w"

text \<open>The texts of an expression: white space may stand before every token.\<close>

inductive expr_text :: "expr \<Rightarrow> string \<Rightarrow> bool"
  and adds_text :: "adds \<Rightarrow> string \<Rightarrow> bool"
  and term_text :: "term \<Rightarrow> string \<Rightarrow> bool"
  and muls_text :: "muls \<Rightarrow> string \<Rightarrow> bool"
  and factor_text :: "factor \<Rightarrow> string \<Rightarrow> bool" where
  expr_text: "term_text t x \<Longrightarrow> adds_text as y \<Longrightarrow> expr_text (Expr t as) (x @ y)"
| adds_nil: "adds_text ANil []"
| adds_cons: "blank w \<Longrightarrow> term_text t x \<Longrightarrow> adds_text as y \<Longrightarrow>
    adds_text (ACons aop t as) (w @ add_char aop # x @ y)"
| term_text: "factor_text f x \<Longrightarrow> muls_text ms y \<Longrightarrow> term_text (Term f ms) (x @ y)"
| muls_nil: "muls_text MNil []"
| muls_cons: "blank w \<Longrightarrow> factor_text f x \<Longrightarrow> muls_text ms y \<Longrightarrow>
    muls_text (MCons mop f ms) (w @ mul_char mop # x @ y)"
| factor_num: "blank w \<Longrightarrow> ds \<noteq> [] \<Longrightarrow> list_all is_ascii_digit ds \<Longrightarrow>
    factor_text (FNum (digits_value 0 ds)) (w @ ds)"
| factor_pos: "blank w \<Longrightarrow> factor_text f x \<Longrightarrow> factor_text (FPos f) (w @ CHR ''+'' # x)"
| factor_neg: "blank w \<Longrightarrow> factor_text f x \<Longrightarrow> factor_text (FNeg f) (w @ CHR ''-'' # x)"
| factor_paren: "blank w \<Longrightarrow> expr_text e x \<Longrightarrow> blank w' \<Longrightarrow>
    factor_text (FParen e) (w @ CHR ''('' # x @ w' @ [CHR '')''])"


lemmas text_rules = expr_text_adds_text_term_text_muls_text_factor_text.intros
lemmas text_induct = expr_text_adds_text_term_text_muls_text_factor_text.inducts

section \<open>Tokens\<close>

definition next_tok :: "string \<Rightarrow> char option" where
  "next_tok s = (case skip_ws s of [] \<Rightarrow> None | c # cs \<Rightarrow> Some c)"

lemma blank_simps [simp]:
  "blank []" "blank (c # w) \<longleftrightarrow> is_ascii_whitespace c \<and> blank w"
  "blank (w @ w') \<longleftrightarrow> blank w \<and> blank w'"
  by (auto simp: blank_def)

lemma skip_ws_blank [simp]: "blank w \<Longrightarrow> skip_ws (w @ s) = skip_ws s"
  by (induction w) (auto simp: skip_ws_def)

lemma skip_ws_token [simp]: "\<not> is_ascii_whitespace c \<Longrightarrow> skip_ws (c # s) = c # s"
  by (simp add: skip_ws_def)

lemma skip_ws_Nil [simp]: "skip_ws [] = []"
  by (simp add: skip_ws_def)

lemma skip_ws_idem [simp]: "skip_ws (skip_ws s) = skip_ws s"
  by (induction s) (auto simp: skip_ws_def)

lemma skip_ws_split: "\<exists>w. blank w \<and> s = w @ skip_ws s"
  by (rule exI [of _ "takeWhile is_ascii_whitespace s"])
    (auto simp: skip_ws_def blank_def list_all_iff dest: set_takeWhileD)

lemma next_tok_simps [simp]:
  "next_tok [] = None" "blank w \<Longrightarrow> next_tok (w @ s) = next_tok s"
  "\<not> is_ascii_whitespace c \<Longrightarrow> next_tok (c # s) = Some c" "next_tok (skip_ws s) = next_tok s"
  by (simp_all add: next_tok_def)

lemma consume_eq:
  "consume ch s = (if next_tok s = Some ch then (True, tl (skip_ws s)) else (False, skip_ws s))"
  by (auto simp: consume_def next_tok_def split: list.splits)

lemma consume_skip_ws [simp]: "consume ch (skip_ws s) = consume ch s"
  by (simp add: consume_eq)

lemma consume_True_text: "consume ch s = (True, r) \<Longrightarrow> \<exists>w. blank w \<and> s = w @ ch # r"
  using skip_ws_split [of s] by (auto simp: consume_def split: list.splits if_splits)

lemma expr_loop_skip_ws [simp]: "expr_loop v (skip_ws s) = expr_loop v s"
  by (subst (1 2) expr_loop.simps) simp

lemma term_loop_skip_ws [simp]: "term_loop v (skip_ws s) = term_loop v s"
  by (subst (1 2) term_loop.simps) simp

lemma operator_not_white [simp]:
  "\<not> is_ascii_whitespace CHR ''+''" "\<not> is_ascii_whitespace CHR ''-''"
  "\<not> is_ascii_whitespace CHR ''(''" "\<not> is_ascii_whitespace CHR '')''"
  "\<not> is_ascii_whitespace (add_char aop)" "\<not> is_ascii_whitespace (mul_char mop)"
  by (cases aop; cases mop; simp add: is_ascii_whitespace_def)+

lemma operator_not_digit [simp]:
  "\<not> is_ascii_digit CHR ''+''" "\<not> is_ascii_digit CHR ''-''"
  "\<not> is_ascii_digit CHR ''(''" "\<not> is_ascii_digit CHR '')''"
  "\<not> is_ascii_digit (add_char aop)" "\<not> is_ascii_digit (mul_char mop)"
  by (cases aop; cases mop; simp add: is_ascii_digit_def)+

lemma white_not_digit: "is_ascii_whitespace c \<Longrightarrow> \<not> is_ascii_digit c"
  using whitespace_not_digit by blast

section \<open>The parser reads every expression\<close>

text \<open>What may follow a number, a term and a sum so that the parser stops there.\<close>

definition num_end :: "string \<Rightarrow> bool" where
  "num_end r \<longleftrightarrow> r = [] \<or> \<not> is_ascii_digit (hd r)"

definition term_end :: "string \<Rightarrow> bool" where
  "term_end r \<longleftrightarrow> num_end r \<and> next_tok r \<notin> range (\<lambda>mop. Some (mul_char mop))"

definition expr_end :: "string \<Rightarrow> bool" where
  "expr_end r \<longleftrightarrow> term_end r \<and> next_tok r \<notin> range (\<lambda>aop. Some (add_char aop))"

definition deliver :: "int calc_result \<Rightarrow> string \<Rightarrow> (int \<times> string) calc_result" where
  "deliver res r = (case res of Inl e \<Rightarrow> Inl e | Inr v \<Rightarrow> Inr (v, r))"

lemma deliver_simps [simp]: "deliver (Inl e) r = Inl e" "deliver (Inr v) r = Inr (v, r)"
  by (simp_all add: deliver_def)

lemma and_then_simps [simp]: "and_then (Inl e) f = Inl e" "and_then (Inr v) f = f v"
  by (simp_all add: and_then_def)

lemma deliver_bind:
  "(case deliver res r of Inl e \<Rightarrow> Inl e | Inr (v, s) \<Rightarrow> f v s) =
   (case res of Inl e \<Rightarrow> Inl e | Inr v \<Rightarrow> f v r)"
  "deliver (and_then res g) r = (case res of Inl e \<Rightarrow> Inl e | Inr v \<Rightarrow> deliver (g v) r)"
  by (auto simp: deliver_def split: sum.splits)

lemma num_end_blank [simp]:
  "blank w \<Longrightarrow> \<not> is_ascii_digit c \<Longrightarrow> num_end (w @ c # s)"
  by (cases w) (auto simp: num_end_def white_not_digit)

lemma op_ranges:
  "x \<in> range (\<lambda>aop. Some (add_char aop)) \<longleftrightarrow> x = Some CHR ''+'' \<or> x = Some CHR ''-''"
  "x \<in> range (\<lambda>mop. Some (mul_char mop)) \<longleftrightarrow>
     x = Some CHR ''*'' \<or> x = Some CHR ''/'' \<or> x = Some CHR ''%''"
  by (auto simp: image_iff) (metis add_char.simps mul_char.simps addop.exhaust mulop.exhaust)+

lemma add_char_neq [simp]:
  "add_char aop \<noteq> CHR ''*''" "add_char aop \<noteq> CHR ''/''" "add_char aop \<noteq> CHR ''%''"
  by (cases aop; simp)+

lemma adds_follow: "adds_text as y \<Longrightarrow> expr_end r \<Longrightarrow> term_end (y @ r)"
  by (cases as; erule adds_text.cases) (auto simp: expr_end_def term_end_def op_ranges)

lemma muls_follow: "muls_text ms y \<Longrightarrow> term_end r \<Longrightarrow> num_end (y @ r)"
  by (cases ms; erule muls_text.cases) (auto simp: term_end_def)

lemma paren_end: "blank w \<Longrightarrow> expr_end (w @ CHR '')'' # r)"
  by (simp add: expr_end_def term_end_def op_ranges)

lemma in_i64_less: "int m * 10 \<le> int n \<Longrightarrow> in_i64 (int n) \<Longrightarrow> in_i64 (int m * 10)"
  by (simp add: in_i64_def)

lemma number_loop_digits:
  assumes "num_end r" "list_all is_ascii_digit ds" "d \<or> ds \<noteq> []" "in_i64 (int n)"
  shows "number_loop d (int n) (ds @ r) = deliver (ok_or_overflow (int (digits_value n ds))) r"
  using assms
proof (induction ds arbitrary: d n)
  case Nil
  then show ?case by (cases r) (auto simp: num_end_def ok_or_overflow_def)
next
  case (Cons b ds)
  define n' where "n' = n * 10 + digit_val b"
  have le: "n' \<le> digits_value n' ds" by (rule digits_value_mono)
  have b: "is_ascii_digit b" and ds: "list_all is_ascii_digit ds" using Cons.prems(2) by auto
  have eq: "int n * 10 + int (digit_val b) = int n'" by (simp add: n'_def)
  show ?case
  proof (cases "in_i64 (int n')")
    case True
    then have "in_i64 (int n * 10)" by (rule in_i64_less [rotated]) (simp add: n'_def)
    with True b Cons.IH [OF Cons.prems(1) ds _ True, of True] show ?thesis
      by (simp add: ok_or_overflow_def eq n'_def [symmetric])
  next
    case False
    then have "\<not> in_i64 (int (digits_value n' ds))" using le by (simp add: in_i64_def)
    with False b show ?thesis
      by (simp add: ok_or_overflow_def eq n'_def [symmetric])
  qed
qed

lemma parse_number_text:
  assumes "blank w" "ds \<noteq> []" "list_all is_ascii_digit ds" "num_end r"
  shows "parse_number (w @ ds @ r) = deliver (ok_or_overflow (int (digits_value 0 ds))) r"
proof -
  have "\<not> is_ascii_whitespace (hd ds)"
    using assms(2,3) whitespace_not_digit by (cases ds) auto
  then have "skip_ws (ds @ r) = ds @ r" using assms(2) by (cases ds) auto
  then show ?thesis
    using number_loop_digits [of r ds False 0] assms by (simp add: parse_number_def in_i64_def)
qed

lemma parse_factor_digits:
  assumes "blank w" "ds \<noteq> []" "list_all is_ascii_digit ds"
  shows "parse_factor (w @ ds @ r) = parse_number (w @ ds @ r)"
proof -
  obtain c cs where ds: "ds = c # cs" "is_ascii_digit c" using assms(2,3) by (cases ds) auto
  then have tok: "next_tok (w @ ds @ r) = Some c"
    using assms(1) whitespace_not_digit by simp
  moreover have "c \<noteq> CHR ''+''" "c \<noteq> CHR ''-''" "c \<noteq> CHR ''(''"
    using ds(2) by auto
  ultimately show ?thesis
    by (subst parse_factor.simps) (simp add: consume_eq parse_number_def del: next_tok_simps(2))
qed

text \<open>One round of the two loops, by the operator that is next.\<close>

lemma consume_op:
  "blank w \<Longrightarrow> \<not> is_ascii_whitespace c \<Longrightarrow>
   consume ch (w @ c # s) = (if c = ch then (True, s) else (False, c # s))"
  by (auto simp: consume_eq)

lemma consume_tok:
  "\<not> is_ascii_whitespace c \<Longrightarrow>
   consume ch (c # s) = (if c = ch then (True, s) else (False, c # s))"
  using consume_op [of "[]"] by simp

lemma expr_loop_op:
  assumes "blank w"
  shows "expr_loop v (w @ add_char aop # s) =
     (case parse_term s of Inl e \<Rightarrow> Inl e | Inr (rhs, s2) \<Rightarrow>
       (case apply_add aop v rhs of Inl e \<Rightarrow> Inl e | Inr v' \<Rightarrow> expr_loop v' s2))"
  using assms
  by (subst expr_loop.simps)
    (cases aop; simp add: consume_op consume_tok split: sum.split prod.split)

lemma term_loop_op:
  assumes "blank w"
  shows "term_loop v (w @ mul_char mop # s) =
     (case parse_factor s of Inl e \<Rightarrow> Inl e | Inr (rhs, s2) \<Rightarrow>
       (case apply_mul mop v rhs of Inl e \<Rightarrow> Inl e | Inr v' \<Rightarrow> term_loop v' s2))"
proof -
  have tok: "\<not> is_ascii_whitespace CHR ''*''" "\<not> is_ascii_whitespace CHR ''/''"
    "\<not> is_ascii_whitespace CHR ''%''"
    by (simp_all add: is_ascii_whitespace_def)
  show ?thesis
    using assms tok
    by (subst term_loop.simps)
      (cases mop; simp add: consume_op consume_tok split: sum.split prod.split if_split)
qed

lemma expr_loop_stop: "expr_end r \<Longrightarrow> expr_loop v r = Inr (v, skip_ws r)"
  by (subst expr_loop.simps) (auto simp: expr_end_def op_ranges consume_eq)

lemma term_loop_stop: "term_end r \<Longrightarrow> term_loop v r = Inr (v, skip_ws r)"
  by (subst term_loop.simps) (auto simp: term_end_def op_ranges consume_eq)

text \<open>The five parsing functions on the five kinds of text.\<close>

lemma parse_text:
  "expr_text e x \<Longrightarrow>
     \<forall>r. expr_end r \<longrightarrow> parse_expr (x @ r) = deliver (eval_expr e) (skip_ws r)"
  "adds_text as y \<Longrightarrow>
     \<forall>v r. expr_end r \<longrightarrow> expr_loop v (y @ r) = deliver (eval_adds as v) (skip_ws r)"
  "term_text t x \<Longrightarrow>
     \<forall>r. term_end r \<longrightarrow> parse_term (x @ r) = deliver (eval_term t) (skip_ws r)"
  "muls_text ms y \<Longrightarrow>
     \<forall>v r. term_end r \<longrightarrow> term_loop v (y @ r) = deliver (eval_muls ms v) (skip_ws r)"
  "factor_text f x \<Longrightarrow>
     \<forall>r. num_end r \<longrightarrow> parse_factor (x @ r) = deliver (eval_factor f) r"
proof (induction rule: text_induct)
  case (expr_text t x as y)
  then show ?case
    by (auto simp: parse_expr.simps adds_follow deliver_bind split: sum.splits)
next
  case adds_nil
  show ?case
    by (simp add: expr_loop_stop)
next
  case (adds_cons w t x as y aop)
  then show ?case
    by (auto simp: expr_loop_op adds_follow deliver_bind split: sum.splits)
next
  case (term_text f x ms y)
  then show ?case
    by (auto simp: parse_term.simps muls_follow deliver_bind split: sum.splits)
next
  case muls_nil
  show ?case
    by (simp add: term_loop_stop)
next
  case (muls_cons w f x ms y mop)
  then show ?case
    by (auto simp: term_loop_op muls_follow deliver_bind split: sum.splits)
next
  case (factor_num w ds)
  then show ?case
    by (auto simp: parse_factor_digits parse_number_text)
next
  case (factor_pos w f x)
  then show ?case
    by (subst parse_factor.simps) (auto simp: consume_eq)
next
  case (factor_neg w f x)
  then show ?case
    by (subst parse_factor.simps) (auto simp: consume_eq deliver_bind split: sum.splits)
next
  case (factor_paren w e x w')
  then show ?case
    by (subst parse_factor.simps) (auto simp: consume_eq paren_end deliver_bind split: sum.splits)
qed

lemma parser_reads_expression:
  assumes "expr_text e x" and "blank w"
  shows "eval_calc_expression (x @ w) = eval_expr e"
proof -
  have tok: "next_tok w = None" using assms(2) next_tok_simps(2) [of w "[]"] by simp
  have "expr_end w"
    using assms(2) tok by (cases w) (auto simp: expr_end_def term_end_def num_end_def white_not_digit)
  moreover have "skip_ws w = []" using assms(2) skip_ws_blank [of w "[]"] by simp
  ultimately show ?thesis
    using parse_text(1) [OF assms(1)]
    by (auto simp: eval_calc_expression_def deliver_def split: sum.splits)
qed

section \<open>The parser accepts only expressions\<close>

lemma adds_text_blank:
  assumes "adds_text as y" "blank w" "blank w2"
  obtains y' w' where "adds_text as y'" "blank w'" "w @ y @ w2 = y' @ w'"
  using assms(1)
proof (cases rule: adds_text.cases)
  case adds_nil
  then show thesis using that [of "[]" "w @ w2"] assms(2,3) by (simp add: adds_nil text_rules)
next
  case (adds_cons w1 t x as' y1 aop)
  have "adds_text as ((w @ w1) @ add_char aop # x @ y1)"
    unfolding adds_cons(1)
    by (rule text_rules(3))
      (use adds_cons assms in auto)
  then show thesis using that [of "w @ y" w2] assms(3) adds_cons by simp
qed

definition expr_read :: "string \<Rightarrow> int \<Rightarrow> string \<Rightarrow> bool" where
  "expr_read s v r \<longleftrightarrow>
     (\<exists>e x w. expr_text e x \<and> blank w \<and> s = x @ w @ r \<and> eval_expr e = Inr v)"

definition adds_read :: "int \<Rightarrow> string \<Rightarrow> int \<Rightarrow> string \<Rightarrow> bool" where
  "adds_read v0 s v r \<longleftrightarrow>
     (\<exists>as x w. adds_text as x \<and> blank w \<and> s = x @ w @ r \<and> eval_adds as v0 = Inr v)"

definition term_read :: "string \<Rightarrow> int \<Rightarrow> string \<Rightarrow> bool" where
  "term_read s v r \<longleftrightarrow>
     (\<exists>t x w. term_text t x \<and> blank w \<and> s = x @ w @ r \<and> eval_term t = Inr v)"

definition muls_read :: "int \<Rightarrow> string \<Rightarrow> int \<Rightarrow> string \<Rightarrow> bool" where
  "muls_read v0 s v r \<longleftrightarrow>
     (\<exists>ms x w. muls_text ms x \<and> blank w \<and> s = x @ w @ r \<and> eval_muls ms v0 = Inr v)"

definition factor_read :: "string \<Rightarrow> int \<Rightarrow> string \<Rightarrow> bool" where
  "factor_read s v r \<longleftrightarrow> (\<exists>f x. factor_text f x \<and> s = x @ r \<and> eval_factor f = Inr v)"

lemma expr_readI:
  assumes "term_read s v s'" "adds_read v s' v' r"
  shows "expr_read s v' r"
proof -
  obtain t x w where t: "term_text t x" "blank w" "s = x @ w @ s'" "eval_term t = Inr v"
    using assms(1) by (auto simp: term_read_def)
  obtain as y w2 where a: "adds_text as y" "blank w2" "s' = y @ w2 @ r" "eval_adds as v = Inr v'"
    using assms(2) by (auto simp: adds_read_def)
  obtain y' w' where y: "adds_text as y'" "blank w'" "w @ y @ w2 = y' @ w'"
    using adds_text_blank [OF a(1) t(2) a(2)] .
  have "s = (x @ y') @ w' @ r" using t(3) a(3) y(3) by simp
  then show ?thesis
    unfolding expr_read_def
    using y(2) t a text_rules(1) [OF t(1) y(1)]
    by (intro exI [of _ "Expr t as"] exI [of _ "x @ y'"] exI [of _ w']) simp
qed

lemma adds_readI:
  assumes "blank w0" "s = w0 @ add_char aop # s1" "term_read s1 rhs s2"
    "apply_add aop v0 rhs = Inr v1" "adds_read v1 s2 v r"
  shows "adds_read v0 s v r"
proof -
  obtain t x w where t: "term_text t x" "blank w" "s1 = x @ w @ s2" "eval_term t = Inr rhs"
    using assms(3) by (auto simp: term_read_def)
  obtain as y w2 where a: "adds_text as y" "blank w2" "s2 = y @ w2 @ r" "eval_adds as v1 = Inr v"
    using assms(5) by (auto simp: adds_read_def)
  obtain y' w' where y: "adds_text as y'" "blank w'" "w @ y @ w2 = y' @ w'"
    using adds_text_blank [OF a(1) t(2) a(2)] .
  have "s = (w0 @ add_char aop # x @ y') @ w' @ r" using assms(2) t(3) a(3) y(3) by simp
  then show ?thesis
    unfolding adds_read_def
    using y(2) t a assms(4)
      text_rules(3) [OF assms(1) t(1) y(1)]
    by (intro exI [of _ "ACons aop t as"] exI [of _ "w0 @ add_char aop # x @ y'"] exI [of _ w'])
      simp
qed

lemma term_readI:
  assumes "factor_read s v s'" "muls_read v s' v' r"
  shows "term_read s v' r"
proof -
  obtain f x where f: "factor_text f x" "s = x @ s'" "eval_factor f = Inr v"
    using assms(1) by (auto simp: factor_read_def)
  obtain ms y w where m: "muls_text ms y" "blank w" "s' = y @ w @ r" "eval_muls ms v = Inr v'"
    using assms(2) by (auto simp: muls_read_def)
  show ?thesis
    unfolding term_read_def
    using f m text_rules(4) [OF f(1) m(1)]
    by (intro exI [of _ "Term f ms"] exI [of _ "x @ y"] exI [of _ w]) simp
qed

lemma muls_readI:
  assumes "blank w0" "s = w0 @ mul_char mop # s1" "factor_read s1 rhs s2"
    "apply_mul mop v0 rhs = Inr v1" "muls_read v1 s2 v r"
  shows "muls_read v0 s v r"
proof -
  obtain f x where f: "factor_text f x" "s1 = x @ s2" "eval_factor f = Inr rhs"
    using assms(3) by (auto simp: factor_read_def)
  obtain ms y w where m: "muls_text ms y" "blank w" "s2 = y @ w @ r" "eval_muls ms v1 = Inr v"
    using assms(5) by (auto simp: muls_read_def)
  show ?thesis
    unfolding muls_read_def
    using f m assms(2,4)
      text_rules(6) [OF assms(1) f(1) m(1)]
    by (intro exI [of _ "MCons mop f ms"] exI [of _ "w0 @ mul_char mop # x @ y"] exI [of _ w]) simp
qed

lemma ok_or_overflow_Inr [simp]: "ok_or_overflow k = Inr v \<longleftrightarrow> v = k \<and> in_i64 k"
  by (auto simp: ok_or_overflow_def)

lemma number_loop_text:
  assumes "number_loop d (int n) s = Inr (v, r)" "in_i64 (int n)"
  shows "\<exists>ds. s = ds @ r \<and> list_all is_ascii_digit ds \<and> (d \<or> ds \<noteq> []) \<and>
     v = int (digits_value n ds) \<and> in_i64 v"
  using assms
proof (induction s arbitrary: d n)
  case Nil
  then show ?case by (auto split: if_splits)
next
  case (Cons b bs)
  show ?case
  proof (cases "is_ascii_digit b")
    case False
    then show ?thesis using Cons.prems by (auto split: if_splits)
  next
    case True
    define n' where "n' = n * 10 + digit_val b"
    have "number_loop True (int n') bs = Inr (v, r)" "in_i64 (int n')"
      using Cons.prems(1) True by (auto simp: n'_def split: sum.splits)
    from Cons.IH [OF this] obtain ds where
      "bs = ds @ r" "list_all is_ascii_digit ds" "v = int (digits_value n' ds)" "in_i64 v"
      by auto
    then show ?thesis
      using True by (intro exI [of _ "b # ds"]) (simp add: n'_def)
  qed
qed

lemma factor_read_number:
  "s0 = w @ s \<Longrightarrow> blank w \<Longrightarrow> returns (factor_read s0) (parse_number s)"
proof (unfold returns_def, intro allI impI)
  fix v r assume s0: "s0 = w @ s" and w: "blank w" and "parse_number s = Inr (v, r)"
  then obtain ds where ds: "skip_ws s = ds @ r" "list_all is_ascii_digit ds" "ds \<noteq> []"
    "v = int (digits_value 0 ds)" "in_i64 v"
    using number_loop_text [of False 0 "skip_ws s" v r]
    by (auto simp: parse_number_def in_i64_def)
  obtain w' where w': "blank w'" "s = w' @ skip_ws s" using skip_ws_split [of s] by blast
  have "factor_text (FNum (digits_value 0 ds)) ((w @ w') @ ds)"
    by (rule text_rules(7)) (use w w' ds in auto)
  moreover have "s0 = ((w @ w') @ ds) @ r" using s0 w' ds(1) by simp
  ultimately show "factor_read s0 v r"
    unfolding factor_read_def using ds by (metis eval_factor.simps(1) ok_or_overflow_Inr)
qed

lemma factor_read_pos:
  assumes "blank w" "factor_read s v r"
  shows "factor_read (w @ CHR ''+'' # s) v r"
  using assms text_rules(8) unfolding factor_read_def
  by (metis append.assoc append_Cons eval_factor.simps(2))

lemma factor_read_neg:
  assumes "s0 = w @ CHR ''-'' # s" "blank w" "factor_read s v r" "ok_or_overflow (- v) = Inr v'"
  shows "factor_read s0 v' r"
proof -
  obtain f x where "factor_text f x" "s = x @ r" "eval_factor f = Inr v"
    using assms(3) by (auto simp: factor_read_def)
  then show ?thesis
    unfolding factor_read_def using assms(1,2,4) text_rules(9) [of w f x]
    by (intro exI [of _ "FNeg f"] exI [of _ "w @ CHR ''-'' # x"]) auto
qed

lemma factor_read_paren:
  assumes "s0 = w @ CHR ''('' # s" "blank w" "expr_read s v s'" "s' = w' @ CHR '')'' # r" "blank w'"
  shows "factor_read s0 v r"
proof -
  obtain e x w2 where e: "expr_text e x" "blank w2" "s = x @ w2 @ s'" "eval_expr e = Inr v"
    using assms(3) by (auto simp: expr_read_def)
  have "factor_text (FParen e) (w @ CHR ''('' # x @ (w2 @ w') @ [CHR '')''])"
    by (rule text_rules(10)) (use assms e in auto)
  then show ?thesis
    unfolding factor_read_def using e assms(1,4)
    by (intro exI [of _ "FParen e"] exI [of _ "w @ CHR ''('' # x @ (w2 @ w') @ [CHR '')'']"]) auto
qed

text \<open>
  Attempts to consume a token, the white space skipped so far in front: \<open>s0\<close> is the input the
  function was called on.
\<close>

lemma returns_consume_text:
  assumes s0: "s0 = pre @ s" "blank pre"
    and t: "\<And>w r. consume ch s = (True, r) \<Longrightarrow> s0 = w @ ch # r \<Longrightarrow> blank w \<Longrightarrow> returns P (f r)"
    and f: "\<And>w r. consume ch s = (False, r) \<Longrightarrow> s0 = w @ r \<Longrightarrow> blank w \<Longrightarrow> returns P (g r)"
  shows "returns P (case consume ch s of (True, r) \<Rightarrow> f r | (False, r) \<Rightarrow> g r)"
proof (rule returns_consume)
  fix r assume c: "consume ch s = (True, r)"
  then obtain w where "blank w" "s = w @ ch # r" using consume_True_text by blast
  then show "returns P (f r)" using t [OF c, of "pre @ w"] s0 by simp
next
  fix r assume c: "consume ch s = (False, r)"
  then obtain w where "blank w" "s = w @ r" using skip_ws_split consume_False by blast
  then show "returns P (g r)" using f [OF c, of "pre @ w"] s0 by simp
qed

lemmas returns_consume_start =
  returns_consume_text [OF append_Nil [symmetric] blank_simps(1)]

lemma adds_round:
  assumes "s0 = w @ add_char aop # s" "blank w" "returns (term_read s) (parse_term s)"
    and loop: "\<And>rhs r v'. parse_term s = Inr (rhs, r) \<Longrightarrow> apply_add aop v rhs = Inr v' \<Longrightarrow>
      returns (adds_read v' r) (expr_loop v' r)"
  shows "returns (adds_read v s0) (case parse_term s of Inl e \<Rightarrow> Inl e | Inr (rhs, r) \<Rightarrow>
    (case apply_add aop v rhs of Inl e \<Rightarrow> Inl e | Inr v' \<Rightarrow> expr_loop v' r))"
  by (rule returns_bind [OF assms(3)], rule returns_checked, rule returns_weaken, rule loop)
    (auto intro: adds_readI [OF assms(2,1)])

lemma muls_round:
  assumes "s0 = w @ mul_char mop # s" "blank w" "returns (factor_read s) (parse_factor s)"
    and loop: "\<And>rhs r v'. parse_factor s = Inr (rhs, r) \<Longrightarrow> apply_mul mop v rhs = Inr v' \<Longrightarrow>
      returns (muls_read v' r) (term_loop v' r)"
  shows "returns (muls_read v s0) (case parse_factor s of Inl e \<Rightarrow> Inl e | Inr (rhs, r) \<Rightarrow>
    (case apply_mul mop v rhs of Inl e \<Rightarrow> Inl e | Inr v' \<Rightarrow> term_loop v' r))"
  by (rule returns_bind [OF assms(3)], rule returns_checked, rule returns_weaken, rule loop)
    (auto intro: muls_readI [OF assms(2,1)])

lemma adds_stop: "s0 = w @ r \<Longrightarrow> blank w \<Longrightarrow> returns (adds_read v s0) (Inr (v, r))"
  using text_rules(2) unfolding adds_read_def returns_def
  by (metis append_Nil eval_adds.simps(1) prod.inject sum.inject(2))

lemma muls_stop: "s0 = w @ r \<Longrightarrow> blank w \<Longrightarrow> returns (muls_read v s0) (Inr (v, r))"
  using text_rules(5) unfolding muls_read_def returns_def
  by (metis append_Nil eval_muls.simps(1) prod.inject sum.inject(2))

lemmas parser_induct = parse_expr_expr_loop_parse_term_term_loop_parse_factor.induct

lemma expr_loop_rounds:
  "expr_loop v s =
     (case consume CHR ''+'' s of
        (True, s1) \<Rightarrow>
          (case parse_term s1 of Inl e \<Rightarrow> Inl e | Inr (rhs, r) \<Rightarrow>
            (case apply_add OpAdd v rhs of Inl e \<Rightarrow> Inl e | Inr v' \<Rightarrow> expr_loop v' r))
      | (False, s1) \<Rightarrow>
          (case consume CHR ''-'' s1 of
             (True, s2) \<Rightarrow>
               (case parse_term s2 of Inl e \<Rightarrow> Inl e | Inr (rhs, r) \<Rightarrow>
                 (case apply_add OpSub v rhs of Inl e \<Rightarrow> Inl e | Inr v' \<Rightarrow> expr_loop v' r))
           | (False, s2) \<Rightarrow> Inr (v, s2)))"
  by (subst expr_loop.simps) (simp split: prod.split bool.split sum.split)

lemma term_loop_rounds:
  "term_loop v s =
     (case consume CHR ''*'' s of
        (True, s1) \<Rightarrow>
          (case parse_factor s1 of Inl e \<Rightarrow> Inl e | Inr (rhs, r) \<Rightarrow>
            (case apply_mul OpMul v rhs of Inl e \<Rightarrow> Inl e | Inr v' \<Rightarrow> term_loop v' r))
      | (False, s1) \<Rightarrow>
          (case consume CHR ''/'' s1 of
             (True, s2) \<Rightarrow>
               (case parse_factor s2 of Inl e \<Rightarrow> Inl e | Inr (rhs, r) \<Rightarrow>
                 (case apply_mul OpDiv v rhs of Inl e \<Rightarrow> Inl e | Inr v' \<Rightarrow> term_loop v' r))
           | (False, s2) \<Rightarrow>
               (case consume CHR ''%'' s2 of
                  (True, s3) \<Rightarrow>
                    (case parse_factor s3 of Inl e \<Rightarrow> Inl e | Inr (rhs, r) \<Rightarrow>
                      (case apply_mul OpRem v rhs of Inl e \<Rightarrow> Inl e | Inr v' \<Rightarrow> term_loop v' r))
                | (False, s3) \<Rightarrow> Inr (v, s3))))"
  by (subst term_loop.simps) (simp split: prod.split bool.split sum.split)

lemma parse_reads:
  "returns (expr_read s) (parse_expr s)"
  "returns (adds_read v s) (expr_loop v s)"
  "returns (term_read s) (parse_term s)"
  "returns (muls_read v s) (term_loop v s)"
  "returns (factor_read s) (parse_factor s)"
proof (induction s and v s and s and v s and s rule: parser_induct)
  case (1 s)
  show ?case
    unfolding parse_expr.simps [of s]
    by (rule returns_bind [OF 1(1)], rule returns_weaken, rule 1(2)) (auto intro: expr_readI)
next
  case (2 v s)
  show ?case
    unfolding expr_loop_rounds [of v s]
    apply (rule returns_consume_start)
    subgoal by (rule adds_round [where aop = OpAdd, unfolded add_char.simps,
            OF _ _ 2(1) [OF sym refl] 2(2) [OF sym refl _ refl]])
          (assumption | simp split: if_splits)+
    subgoal
      apply (rule returns_consume_text, assumption+)
      subgoal by (rule adds_round [where aop = OpSub, unfolded add_char.simps,
            OF _ _ 2(3) [OF sym refl sym refl] 2(4) [OF sym refl sym refl _ refl]])
          (assumption | simp split: if_splits)+
      subgoal by (rule adds_stop)
      done
    done
next
  case (3 s)
  show ?case
    unfolding parse_term.simps [of s]
    by (rule returns_bind [OF 3(1)], rule returns_weaken, rule 3(2)) (auto intro: term_readI)
next
  case (4 v s)
  show ?case
    unfolding term_loop_rounds [of v s]
    apply (rule returns_consume_start)
    subgoal by (rule muls_round [where mop = OpMul, unfolded mul_char.simps,
            OF _ _ 4(1) [OF sym refl] 4(2) [OF sym refl _ refl]])
          (assumption | simp split: if_splits)+
    subgoal
      apply (rule returns_consume_text, assumption+)
      subgoal by (rule muls_round [where mop = OpDiv, unfolded mul_char.simps,
            OF _ _ 4(3) [OF sym refl sym refl] 4(4) [OF sym refl sym refl _ refl]])
          (assumption | simp split: if_splits)+
      subgoal
        apply (rule returns_consume_text, assumption+)
        subgoal by (rule muls_round [where mop = OpRem, unfolded mul_char.simps,
            OF _ _ 4(5) [OF sym refl sym refl sym refl] 4(6) [OF sym refl sym refl sym refl _ refl]])
          (assumption | simp split: if_splits)+
        subgoal by (rule muls_stop)
        done
      done
    done
next
  case (5 s)
  show ?case
    unfolding parse_factor.simps [of s]
    apply (rule returns_consume_start)
    subgoal by (rule returns_weaken, rule 5(1) [OF sym refl], assumption)
          (simp add: factor_read_pos)
    subgoal
      apply (rule returns_consume_text, assumption+)
      subgoal
        by (rule returns_bind [OF 5(2) [OF sym refl sym refl]], assumption, assumption,
            rule returns_checked, rule returns_value, rule factor_read_neg)
      subgoal
        apply (rule returns_consume_text, assumption+)
        subgoal by (rule returns_bind [OF 5(3) [OF sym refl sym refl sym refl]], assumption,
              assumption, assumption, rule returns_consume_start, rule returns_value,
              rule factor_read_paren, assumption+, rule returns_error)
        subgoal by (rule factor_read_number)
        done
      done
    done
qed

lemma parser_accepts_expression:
  assumes "eval_calc_expression s = Inr v"
  obtains e x w where "expr_text e x" "blank w" "s = x @ w" "eval_expr e = Inr v"
proof -
  obtain r where r: "parse_expr s = Inr (v, r)" "skip_ws r = []"
    using assms by (auto simp: eval_calc_expression_def split: sum.splits if_splits)
  then obtain e x w where e: "expr_text e x" "blank w" "s = x @ w @ r" "eval_expr e = Inr v"
    using parse_reads(1) [of s] by (auto simp: returns_def expr_read_def)
  moreover have "blank r" using skip_ws_split [of r] r(2) by auto
  ultimately show thesis using that [of e x "w @ r"] by simp
qed

section \<open>Values\<close>

text \<open>The value over the unbounded integers, with division truncated towards zero.\<close>

fun add_value :: "addop \<Rightarrow> int \<Rightarrow> int \<Rightarrow> int" where
  "add_value OpAdd a b = a + b"
| "add_value OpSub a b = a - b"

fun mul_value :: "mulop \<Rightarrow> int \<Rightarrow> int \<Rightarrow> int" where
  "mul_value OpMul a b = a * b"
| "mul_value OpDiv a b = sgn a * sgn b * (\<bar>a\<bar> div \<bar>b\<bar>)"
| "mul_value OpRem a b = sgn a * (\<bar>a\<bar> mod \<bar>b\<bar>)"

primrec expr_value :: "expr \<Rightarrow> int"
  and adds_value :: "adds \<Rightarrow> int \<Rightarrow> int"
  and term_value :: "term \<Rightarrow> int"
  and muls_value :: "muls \<Rightarrow> int \<Rightarrow> int"
  and factor_value :: "factor \<Rightarrow> int" where
  "expr_value (Expr t as) = adds_value as (term_value t)"
| "adds_value ANil = (\<lambda>v. v)"
| "adds_value (ACons aop t as) = (\<lambda>v. adds_value as (add_value aop v (term_value t)))"
| "term_value (Term f ms) = muls_value ms (factor_value f)"
| "muls_value MNil = (\<lambda>v. v)"
| "muls_value (MCons mop f ms) = (\<lambda>v. muls_value ms (mul_value mop v (factor_value f)))"
| "factor_value (FNum n) = int n"
| "factor_value (FPos f) = factor_value f"
| "factor_value (FNeg f) = - factor_value f"
| "factor_value (FParen e) = expr_value e"

lemma and_then_Inr_right [simp]: "and_then r Inr = r"
  by (cases r) auto

lemma and_then_Inr [simp]: "and_then r f = Inr v \<longleftrightarrow> (\<exists>u. r = Inr u \<and> f u = Inr v)"
  by (cases r) auto

lemma apply_add_Inr: "apply_add aop a b = Inr v \<Longrightarrow> v = add_value aop a b \<and> in_i64 v"
  by (cases aop) auto

lemma sdiv_value: "(a :: int) sdiv b = sgn a * sgn b * (\<bar>a\<bar> div \<bar>b\<bar>)"
  by (simp add: signed_divide_int_def sgn_mult)

lemma smod_value: "b \<noteq> 0 \<Longrightarrow> (a :: int) smod b = sgn a * (\<bar>a\<bar> mod \<bar>b\<bar>)"
  by (simp add: signed_modulo_int_def)

lemma in_i64_rem: "in_i64 a \<Longrightarrow> in_i64 (sgn a * (\<bar>a\<bar> mod \<bar>b\<bar>))"
proof -
  assume a: "in_i64 a"
  have "\<bar>a\<bar> mod \<bar>b\<bar> \<le> \<bar>a\<bar>" by (rule zmod_le_nonneg_dividend) simp
  moreover have "0 \<le> \<bar>a\<bar> mod \<bar>b\<bar>"
    by (cases "b = 0") simp_all
  ultimately show ?thesis
    using a by (cases a "0 :: int" rule: linorder_cases) (auto simp: in_i64_def)
qed

lemma apply_mul_Inr:
  "in_i64 a \<Longrightarrow> apply_mul mop a b = Inr v \<Longrightarrow> v = mul_value mop a b \<and> in_i64 v"
  by (cases mop) (auto simp: checked_rem_def sdiv_value smod_value in_i64_rem split: if_splits)

lemma eval_value:
  "\<forall>v. eval_expr e = Inr v \<longrightarrow> v = expr_value e \<and> in_i64 v"
  "\<forall>a v. in_i64 a \<longrightarrow> eval_adds as a = Inr v \<longrightarrow> v = adds_value as a \<and> in_i64 v"
  "\<forall>v. eval_term t = Inr v \<longrightarrow> v = term_value t \<and> in_i64 v"
  "\<forall>a v. in_i64 a \<longrightarrow> eval_muls ms a = Inr v \<longrightarrow> v = muls_value ms a \<and> in_i64 v"
  "\<forall>v. eval_factor f = Inr v \<longrightarrow> v = factor_value f \<and> in_i64 v"
proof (induction e and as and t and ms and f)
  case (ACons aop t as)
  show ?case
  proof (intro allI impI)
    fix a v assume "in_i64 a" and "eval_adds (ACons aop t as) a = Inr v"
    then obtain b c where "eval_term t = Inr b" and c: "apply_add aop a b = Inr c"
      and v: "eval_adds as c = Inr v" by auto
    then have "b = term_value t" using ACons.IH(1) by blast
    moreover have "v = adds_value as c \<and> in_i64 v"
      using apply_add_Inr [OF c] ACons.IH(2) v by blast
    ultimately show "v = adds_value (ACons aop t as) a \<and> in_i64 v"
      using apply_add_Inr [OF c] by auto
  qed
next
  case (MCons mop f ms)
  show ?case
  proof (intro allI impI)
    fix a v assume a: "in_i64 a" and "eval_muls (MCons mop f ms) a = Inr v"
    then obtain b c where "eval_factor f = Inr b" and c: "apply_mul mop a b = Inr c"
      and v: "eval_muls ms c = Inr v" by auto
    then have "b = factor_value f" using MCons.IH(1) by blast
    moreover have "v = muls_value ms c \<and> in_i64 v"
      using apply_mul_Inr [OF a c] MCons.IH(2) v by blast
    ultimately show "v = muls_value (MCons mop f ms) a \<and> in_i64 v"
      using apply_mul_Inr [OF a c] by auto
  qed
next
  case (Expr t as)
  then show ?case by auto
next
  case (Term f ms)
  then show ?case by auto
next
  case (FNeg f)
  then show ?case by auto
qed simp_all

lemma decimal_factor: "factor_text (FNum n) (show_nat n)"
  using text_rules(7) [of "[]" "show_nat n"] show_nat_digits
  by (simp add: digits_value_show list_all_iff)

lemma lone_factor: "factor_text f x \<Longrightarrow> expr_text (Expr (Term f MNil) ANil) x"
  using text_rules(1) [OF text_rules(4) [OF _ text_rules(5)] text_rules(2)] by fastforce

lemma decimal_text: "expr_text (Expr (Term (FNum n) MNil) ANil) (show_nat n)"
  by (rule lone_factor) (rule decimal_factor)

lemma negative_text: "expr_text (Expr (Term (FNeg (FNum n)) MNil) ANil) (CHR ''-'' # show_nat n)"
  using lone_factor [OF text_rules(9) [OF blank_simps(1) decimal_factor]] by simp

section \<open>Properties\<close>

text \<open>C21: the calculator accepts exactly the texts of the grammar whose checked evaluation
  succeeds, and the value it prints is the value of that evaluation.\<close>

theorem calc_accepts_exactly_the_grammar:
  "eval_calc_expression s = Inr v \<longleftrightarrow>
   (\<exists>e x w. expr_text e x \<and> blank w \<and> s = x @ w \<and> eval_expr e = Inr v)"
proof
  assume "eval_calc_expression s = Inr v"
  then show "\<exists>e x w. expr_text e x \<and> blank w \<and> s = x @ w \<and> eval_expr e = Inr v"
    by (rule parser_accepts_expression) blast
next
  assume "\<exists>e x w. expr_text e x \<and> blank w \<and> s = x @ w \<and> eval_expr e = Inr v"
  then show "eval_calc_expression s = Inr v"
    by (auto simp: parser_reads_expression)
qed

text \<open>C22: on every text of the grammar the calculator returns what the left-to-right checked
  evaluation returns, including which error (overflow or division by zero) comes first.\<close>

theorem calc_evaluates_expression:
  "expr_text e x \<Longrightarrow> blank w \<Longrightarrow> eval_calc_expression (x @ w) = eval_expr e"
  by (rule parser_reads_expression)

theorem calc_evaluates_expression_witness:
  "eval_calc_expression (''7/0'' @ '' '') = Inl ''division by zero''"
proof -
  have "is_ascii_digit CHR ''7''" "is_ascii_digit CHR ''0''" by (simp_all add: is_ascii_digit_def)
  then have t: "expr_text
      (Expr (Term (FNum (digits_value 0 ''7''))
        (MCons OpDiv (FNum (digits_value 0 ''0'')) MNil)) ANil)
      ((([] @ ''7'') @ ([] @ mul_char OpDiv # ([] @ ''0'') @ [])) @ [])"
    by (intro text_rules) simp_all
  show ?thesis
    using calc_evaluates_expression [OF t, of "'' ''"]
    by (simp add: is_ascii_whitespace_def digit_val_def ok_or_overflow_def in_i64_def)
qed

text \<open>C23: a value the calculator returns is the exact integer value of the expression it read
  (nothing wraps around) and fits a 64-bit signed integer.\<close>

theorem calc_never_wraps:
  assumes "eval_calc_expression s = Inr v"
  shows "in_i64 v \<and> (\<exists>e x w. expr_text e x \<and> blank w \<and> s = x @ w \<and> v = expr_value e)"
proof -
  obtain e x w where e: "expr_text e x" "blank w" "s = x @ w" "eval_expr e = Inr v"
    using parser_accepts_expression [OF assms] .
  moreover have "v = expr_value e" "in_i64 v" using eval_value(1) e(4) by auto
  ultimately show ?thesis by blast
qed

theorem calc_never_wraps_witness:
  "\<exists>v e x w. eval_calc_expression (show_int 5) = Inr v \<and> in_i64 v \<and> expr_text e x \<and> blank w \<and>
     show_int 5 = x @ w \<and> v = expr_value e"
proof -
  have five: "eval_calc_expression (show_int 5) = Inr 5"
    using parser_reads_expression [OF decimal_text blank_simps(1), of 5]
    by (simp add: show_int_def ok_or_overflow_def in_i64_def)
  then obtain e x w where "in_i64 5" "expr_text e x" "blank w" "show_int 5 = x @ w"
      "5 = expr_value e"
    using calc_never_wraps [OF five] by (elim conjE exE)
  with five show ?thesis by (intro exI conjI)
qed

text \<open>What the shell prints for a 64-bit integer reads back as that integer, except the
  smallest one: its digits overflow before the minus sign is applied.\<close>

lemma calc_reads_back:
  assumes "in_i64 v"
  shows "eval_calc_expression (show_int v) =
     (if v = - (2 ^ 63) then Inl ''integer overflow'' else Inr v)"
proof (cases "v < 0")
  case True
  have "eval_calc_expression (show_int v) =
      and_then (ok_or_overflow (- v)) (\<lambda>u. ok_or_overflow (- u))"
    using parser_reads_expression [OF negative_text blank_simps(1)] True
    by (simp add: show_int_def)
  then show ?thesis using assms by (auto simp: ok_or_overflow_def in_i64_def)
next
  case False
  then show ?thesis
    using parser_reads_expression [OF decimal_text blank_simps(1), of "nat v"] assms
    by (auto simp: show_int_def ok_or_overflow_def in_i64_def)
qed

end
