(* ===== verification/History.thy ===== *)
theory History
  imports Enos_Prelude
begin

text \<open>
  The shell's command history (\<^verbatim>\<open>HistoryState\<close> in \<^verbatim>\<open>src/src/shell.rs\<close>): at most 64 lines,
  a cursor for the arrow keys and the draft the cursor started from. Indexing the entry vector
  out of range is a panic; the invariant excludes it.
\<close>

definition MAX_HISTORY_ENTRIES :: nat where
  "MAX_HISTORY_ENTRIES = 64"

record history_state =
  entries :: "string list"
  nav_index :: "nat option"
  draft :: string

definition history_new :: history_state where
  "history_new = \<lparr>entries = [], nav_index = None, draft = []\<rparr>"

definition reset_navigation :: "history_state \<Rightarrow> history_state" where
  "reset_navigation h = h\<lparr>nav_index := None, draft := []\<rparr>"

definition history_record :: "string \<Rightarrow> history_state \<Rightarrow> history_state" where
  "history_record command h =
     (if command = [] then reset_navigation h
      else
        let should_push = (entries h = [] \<or> last (entries h) \<noteq> command);
            kept = (if length (entries h) \<ge> MAX_HISTORY_ENTRIES then tl (entries h) else entries h)
        in reset_navigation (if should_push then h\<lparr>entries := kept @ [command]\<rparr> else h))"

definition entry_at :: "history_state \<Rightarrow> nat \<Rightarrow> string run" where
  "entry_at h i = (if i < length (entries h) then Ret (entries h ! i) else Panic IndexOutOfBounds)"

definition history_previous ::
    "string \<Rightarrow> history_state \<Rightarrow> (string option \<times> history_state) run" where
  "history_previous current_line h =
     (if entries h = [] then Ret (None, h)
      else
        let h' = (case nav_index h of
                    None \<Rightarrow> h\<lparr>draft := current_line, nav_index := Some (length (entries h) - 1)\<rparr>
                  | Some 0 \<Rightarrow> h
                  | Some (Suc i) \<Rightarrow> h\<lparr>nav_index := Some i\<rparr>)
        in case nav_index h' of
             None \<Rightarrow> Ret (None, h')
           | Some i \<Rightarrow> rbind (entry_at h' i) (\<lambda>e. Ret (Some e, h')))"

definition history_next :: "history_state \<Rightarrow> (string option \<times> history_state) run" where
  "history_next h =
     (case nav_index h of
        None \<Rightarrow> Ret (None, h)
      | Some index \<Rightarrow>
          if index + 1 < length (entries h)
          then rbind (entry_at h (index + 1))
                 (\<lambda>e. Ret (Some e, h\<lparr>nav_index := Some (index + 1)\<rparr>))
          else Ret (Some (draft h), h\<lparr>nav_index := None\<rparr>))"

section \<open>Invariant\<close>

definition history_wf :: "history_state \<Rightarrow> bool" where
  "history_wf h \<longleftrightarrow>
     length (entries h) \<le> MAX_HISTORY_ENTRIES \<and> [] \<notin> set (entries h) \<and> distinct_adj (entries h) \<and>
     (\<forall>i. nav_index h = Some i \<longrightarrow> i < length (entries h))"

lemma history_wf_new [simp]: "history_wf history_new"
  by (simp add: history_wf_def history_new_def)

lemma history_wf_reset [intro]: "history_wf h \<Longrightarrow> history_wf (reset_navigation h)"
  by (simp add: history_wf_def reset_navigation_def)

lemma entries_reset [simp]: "entries (reset_navigation h) = entries h"
  by (simp add: reset_navigation_def)

lemma distinct_adj_tl: "distinct_adj xs \<Longrightarrow> distinct_adj (tl xs)"
  by (cases xs rule: remdups_adj.cases) auto

lemma distinct_adj_snoc:
  "distinct_adj (xs @ [x]) \<longleftrightarrow> distinct_adj xs \<and> (xs = [] \<or> last xs \<noteq> x)"
  by (induction xs rule: remdups_adj.induct) auto

lemma history_wf_record: "history_wf h \<Longrightarrow> history_wf (history_record c h)"
proof -
  assume wf: "history_wf h"
  have "last (tl (entries h)) = last (entries h)" if "MAX_HISTORY_ENTRIES \<le> length (entries h)"
    using that by (cases "entries h"; cases "tl (entries h)") (auto simp: MAX_HISTORY_ENTRIES_def)
  moreover have "set (tl (entries h)) \<subseteq> set (entries h)" by (cases "entries h") auto
  ultimately show ?thesis
    using wf distinct_adj_tl [of "entries h"]
    by (auto simp: history_record_def history_wf_def reset_navigation_def Let_def distinct_adj_snoc
        MAX_HISTORY_ENTRIES_def)
qed

lemma previous_wf:
  assumes "history_wf h"
  shows "\<exists>e h'. history_previous line h = Ret (e, h') \<and> history_wf h' \<and> entries h' = entries h \<and>
    (\<forall>s. e = Some s \<longrightarrow> s \<in> set (entries h))"
  using assms
  by (cases "entries h")
    (auto simp: history_previous_def history_wf_def entry_at_def Let_def nth_Cons'
      split: option.splits nat.splits)

lemma next_wf:
  assumes "history_wf h"
  shows "\<exists>e h'. history_next h = Ret (e, h') \<and> history_wf h' \<and> entries h' = entries h \<and>
    (\<forall>s. e = Some s \<longrightarrow> s \<in> set (entries h) \<or> s = draft h)"
  using assms
  by (auto simp: history_next_def history_wf_def entry_at_def split: option.splits)

section \<open>Recording\<close>

definition last_n :: "nat \<Rightarrow> 'a list \<Rightarrow> 'a list" where
  "last_n n xs = drop (length xs - n) xs"

lemma last_n_snoc:
  "0 < n \<Longrightarrow> last_n n (xs @ [x]) = (if n \<le> length xs then tl (last_n n xs) else last_n n xs) @ [x]"
  by (auto simp: last_n_def tl_drop Suc_diff_le drop_Suc [symmetric] simp flip: drop_Suc)

lemma last_last_n: "0 < n \<Longrightarrow> xs \<noteq> [] \<Longrightarrow> last (last_n n xs) = last xs"
  by (simp add: last_n_def last_drop)

lemma length_last_n: "length (last_n n xs) = min n (length xs)"
  by (simp add: last_n_def)

lemma remdups_adj_snoc:
  "remdups_adj (xs @ [x]) =
     (if xs \<noteq> [] \<and> last xs = x then remdups_adj xs else remdups_adj xs @ [x])"
  by (induction xs rule: remdups_adj.induct) auto

lemma record_empty [simp]: "history_record [] h = reset_navigation h"
  by (simp add: history_record_def)

lemma record_entries:
  assumes "entries h = last_n MAX_HISTORY_ENTRIES (remdups_adj cs)" "c \<noteq> []"
  shows "entries (history_record c h) = last_n MAX_HISTORY_ENTRIES (remdups_adj (cs @ [c]))"
proof -
  let ?n = MAX_HISTORY_ENTRIES and ?ys = "remdups_adj cs"
  have n: "0 < ?n" by (simp add: MAX_HISTORY_ENTRIES_def)
  have "entries h = [] \<longleftrightarrow> cs = []"
    using assms(1) n length_last_n [of ?n ?ys] by (auto simp: min_def split: if_splits)
  moreover have "cs \<noteq> [] \<Longrightarrow> last (entries h) = last cs"
    using assms(1) n by (simp add: last_last_n)
  moreover have "length (entries h) \<ge> ?n \<longleftrightarrow> ?n \<le> length ?ys"
    using assms(1) by (simp add: length_last_n)
  ultimately show ?thesis
    using assms n by (auto simp: history_record_def Let_def remdups_adj_snoc last_n_snoc)
qed

section \<open>Navigation\<close>

text \<open>
  The line on the screen together with the history: an arrow key replaces the line by what the
  history returns, if it returns one.
\<close>

definition arrow ::
    "(string \<Rightarrow> history_state \<Rightarrow> (string option \<times> history_state) run) \<Rightarrow>
     string \<times> history_state \<Rightarrow> (string \<times> history_state) run" where
  "arrow move s =
     (case s of (line, h) \<Rightarrow>
        rbind (move line h) (\<lambda>(e, h'). Ret (case e of None \<Rightarrow> line | Some l \<Rightarrow> l, h')))"

primrec arrows ::
    "nat \<Rightarrow> (string \<Rightarrow> history_state \<Rightarrow> (string option \<times> history_state) run) \<Rightarrow>
     string \<times> history_state \<Rightarrow> (string \<times> history_state) run" where
  "arrows 0 move s = Ret s"
| "arrows (Suc k) move s = rbind (arrows k move s) (arrow move)"

abbreviation ups :: "nat \<Rightarrow> string \<times> history_state \<Rightarrow> (string \<times> history_state) run" where
  "ups k \<equiv> arrows k history_previous"

abbreviation downs :: "nat \<Rightarrow> string \<times> history_state \<Rightarrow> (string \<times> history_state) run" where
  "downs k \<equiv> arrows k (\<lambda>_. history_next)"

lemma ups_reach:
  assumes "nav_index h = None" "0 < k" "k \<le> length (entries h)"
  shows "ups k (line, h) =
     Ret (entries h ! (length (entries h) - k),
          h\<lparr>draft := line, nav_index := Some (length (entries h) - k)\<rparr>)"
  using assms(2,3)
proof (induction k)
  case (Suc k)
  show ?case
  proof (cases "k = 0")
    case True
    then show ?thesis
      using assms(1) Suc.prems
      by (auto simp: arrow_def history_previous_def entry_at_def Let_def)
  next
    case False
    moreover obtain i where "length (entries h) - k = Suc i"
      using Suc.prems(2) by (metis Suc_diff_le diff_Suc_Suc)
    moreover have "length (entries h) - Suc k = i" using calculation by simp
    ultimately show ?thesis
      using Suc by (auto simp: arrow_def history_previous_def entry_at_def Let_def)
  qed
qed simp

lemma downs_from:
  assumes "nav_index h = Some (length (entries h) - n)" "k < n" "n \<le> length (entries h)"
  shows "downs k (entries h ! (length (entries h) - n), h) =
     Ret (entries h ! (length (entries h) - (n - k)),
          h\<lparr>nav_index := Some (length (entries h) - (n - k))\<rparr>)"
  using assms(2)
proof (induction k)
  case 0
  then show ?case using assms(1) by simp
next
  case (Suc k)
  have "length (entries h) - (n - k) + 1 = length (entries h) - (n - Suc k)"
    using Suc.prems assms(3) by simp
  moreover have "length (entries h) - (n - Suc k) < length (entries h)"
    using Suc.prems assms(3) by simp
  ultimately show ?case
    using Suc by (simp add: arrow_def history_next_def entry_at_def)
qed

lemma downs_all:
  assumes "nav_index h = Some (length (entries h) - n)" "0 < n" "n \<le> length (entries h)"
  shows "downs n (entries h ! (length (entries h) - n), h) = Ret (draft h, h\<lparr>nav_index := None\<rparr>)"
proof -
  obtain k where k: "n = Suc k" using assms(2) by (cases n) auto
  have "downs k (entries h ! (length (entries h) - n), h) =
      Ret (entries h ! (length (entries h) - 1), h\<lparr>nav_index := Some (length (entries h) - 1)\<rparr>)"
    using downs_from [OF assms(1), of k] assms(3) k by simp
  moreover have "length (entries h) \<noteq> 0" using assms by auto
  ultimately show ?thesis
    by (simp add: k arrow_def history_next_def)
qed

section \<open>Properties\<close>

text \<open>C24: the history after any sequence of submitted lines is the last 64 of them, with empty
  lines and immediate repetitions left out, in the order they were entered.\<close>

theorem history_keeps_recent_lines:
  "entries (fold history_record cs history_new) =
     last_n MAX_HISTORY_ENTRIES (remdups_adj (filter (\<lambda>c. c \<noteq> []) cs))"
proof (induction cs rule: rev_induct)
  case Nil
  then show ?case by (simp add: history_new_def last_n_def)
next
  case (snoc c cs)
  then show ?case
    by (cases "c = []") (simp_all add: record_entries)
qed

text \<open>C25: pressing the up arrow \<open>k\<close> times shows the \<open>k\<close>-th most recent line, and pressing the
  down arrow as often brings back the line that was being typed; no index is out of range.\<close>

theorem history_navigation_round_trip:
  assumes "nav_index h = None" and "0 < k" and "k \<le> length (entries h)"
  shows "\<exists>h'. ups k (line, h) = Ret (entries h ! (length (entries h) - k), h') \<and>
     downs k (entries h ! (length (entries h) - k), h') = Ret (line, h\<lparr>draft := line\<rparr>)"
proof -
  let ?h' = "h\<lparr>draft := line, nav_index := Some (length (entries h) - k)\<rparr>"
  have "h\<lparr>draft := line, nav_index := Some (length (entries h) - k), nav_index := None\<rparr> =
      h\<lparr>draft := line\<rparr>"
    using assms(1) by simp
  then show ?thesis
    using ups_reach [OF assms, of line] downs_all [of ?h' k] assms(2,3) by simp
qed

theorem history_navigation_round_trip_witness:
  "\<exists>h'. ups 2 (''dra'', history_record ''ls'' (history_record ''ps'' history_new)) = Ret (''ps'', h') \<and>
     fst (projr (downs 2 (''ps'', h'))) = ''dra''"
  using history_navigation_round_trip
      [of "history_record ''ls'' (history_record ''ps'' history_new)" 2 "''dra''"]
  by (auto simp: history_record_def history_new_def reset_navigation_def MAX_HISTORY_ENTRIES_def)

text \<open>From a well-formed history every operation returns, without panicking, a
  well-formed history: at most 64 nonempty lines, no line twice in a row, the cursor inside the
  list; the arrow keys return a stored line or the saved draft and never change the list.\<close>

lemma history_operations_safe:
  assumes "history_wf h"
  shows "history_wf (reset_navigation h) \<and> history_wf (history_record c h) \<and>
     (\<exists>e h'. history_previous line h = Ret (e, h') \<and> history_wf h' \<and> entries h' = entries h \<and>
        set_option e \<subseteq> set (entries h)) \<and>
     (\<exists>e h'. history_next h = Ret (e, h') \<and> history_wf h' \<and> entries h' = entries h \<and>
        set_option e \<subseteq> insert (draft h) (set (entries h)))"
  using history_wf_reset [OF assms] history_wf_record [OF assms] previous_wf [OF assms]
    next_wf [OF assms] by (fastforce simp: set_eq_iff)

end
