(* ===== verification/Ramfs.thy ===== *)
theory Ramfs
  imports Enos_Prelude
begin

text \<open>
  The in-memory file system of \<^verbatim>\<open>src/src/fs.rs\<close>: a vector of named files behind a mutex.
  The operations take the vector and return the result and the new vector; the mutex is
  released at the end of every operation, so each is one atomic step.

  What the shell relies on is the interface \<open>file_store\<close>: a store of at most 64 named texts,
  as a finite map. The client lemmas are proved in that locale and the vector implements it.
\<close>

section \<open>The implementation\<close>

definition MAX_FILES :: nat where "MAX_FILES = 64"
definition MAX_FILE_NAME_LEN :: nat where "MAX_FILE_NAME_LEN = 32"
definition MAX_FILE_SIZE :: nat where "MAX_FILE_SIZE = 2048"

record file_entry =
  file_name :: string
  contents :: string

record file_info =
  info_name :: string
  info_size :: nat

record fs_stats =
  file_count :: nat
  total_bytes :: nat
  max_files :: nat
  max_file_size :: nat

definition name_byte :: "char \<Rightarrow> bool" where
  "name_byte b \<longleftrightarrow>
     (let n = (of_char b :: nat) in
      (97 \<le> n \<and> n \<le> 122) \<or> (65 \<le> n \<and> n \<le> 90) \<or> (48 \<le> n \<and> n \<le> 57) \<or>
      b = CHR ''_'' \<or> b = CHR ''-'' \<or> b = CHR ''.'')"

definition is_valid_name :: "string \<Rightarrow> bool" where
  "is_valid_name name \<longleftrightarrow>
     \<not> (name = [] \<or> length name > MAX_FILE_NAME_LEN) \<and> list_all name_byte name"

type_synonym fs_result = "string + unit"

definition create_file :: "string \<Rightarrow> file_entry list \<Rightarrow> fs_result \<times> file_entry list" where
  "create_file name files =
     (if \<not> is_valid_name name then (Inl ''invalid file name'', files)
      else if list_ex (\<lambda>f. file_name f = name) files then (Inl ''file already exists'', files)
      else if length files \<ge> MAX_FILES then (Inl ''file table is full'', files)
      else (Inr (), files @ [\<lparr>file_name = name, contents = []\<rparr>]))"

definition delete_file :: "string \<Rightarrow> file_entry list \<Rightarrow> fs_result \<times> file_entry list" where
  "delete_file name files =
     (case position (\<lambda>f. file_name f = name) files of
        None \<Rightarrow> (Inl ''file not found'', files)
      | Some idx \<Rightarrow> (Inr (), remove_at idx files))"

definition write_file :: "string \<Rightarrow> string \<Rightarrow> file_entry list \<Rightarrow> fs_result \<times> file_entry list" where
  "write_file name content files =
     (if length content > MAX_FILE_SIZE then (Inl ''content too large'', files)
      else case position (\<lambda>f. file_name f = name) files of
             None \<Rightarrow> (Inl ''file not found'', files)
           | Some idx \<Rightarrow> (Inr (), files[idx := (files ! idx)\<lparr>contents := content\<rparr>]))"

definition read_file :: "string \<Rightarrow> file_entry list \<Rightarrow> string + string" where
  "read_file name files =
     (case find (\<lambda>f. file_name f = name) files of
        None \<Rightarrow> Inl ''file not found''
      | Some file \<Rightarrow> Inr (contents file))"

definition list_files :: "file_entry list \<Rightarrow> file_info list" where
  "list_files files =
     map (\<lambda>file. \<lparr>info_name = file_name file, info_size = length (contents file)\<rparr>) files"

definition fs_total :: "file_entry list \<Rightarrow> nat" where
  "fs_total files =
     fold (\<lambda>file total. min (2 ^ 32 - 1) (total + length (contents file))) files 0"

definition fs_stats_of :: "file_entry list \<Rightarrow> fs_stats" where
  "fs_stats_of files =
     \<lparr>file_count = length files, total_bytes = fs_total files,
      max_files = MAX_FILES, max_file_size = MAX_FILE_SIZE\<rparr>"

section \<open>The interface\<close>

text \<open>The store as a map from names to texts, with the failures of each operation.\<close>

type_synonym file_map = "string \<rightharpoonup> string"

definition spec_create :: "string \<Rightarrow> file_map \<Rightarrow> fs_result \<times> file_map" where
  "spec_create name m =
     (if \<not> is_valid_name name then (Inl ''invalid file name'', m)
      else if name \<in> dom m then (Inl ''file already exists'', m)
      else if card (dom m) \<ge> MAX_FILES then (Inl ''file table is full'', m)
      else (Inr (), m(name \<mapsto> [])))"

definition spec_delete :: "string \<Rightarrow> file_map \<Rightarrow> fs_result \<times> file_map" where
  "spec_delete name m =
     (if name \<in> dom m then (Inr (), m(name := None)) else (Inl ''file not found'', m))"

definition spec_write :: "string \<Rightarrow> string \<Rightarrow> file_map \<Rightarrow> fs_result \<times> file_map" where
  "spec_write name text m =
     (if length text > MAX_FILE_SIZE then (Inl ''content too large'', m)
      else if name \<in> dom m then (Inr (), m(name \<mapsto> text)) else (Inl ''file not found'', m))"

definition spec_read :: "string \<Rightarrow> file_map \<Rightarrow> string + string" where
  "spec_read name m = (case m name of None \<Rightarrow> Inl ''file not found'' | Some text \<Rightarrow> Inr text)"

datatype fs_op = FCreate string | FDelete string | FWrite string string | FRead string
datatype fs_out = FResult fs_result | FText "string + string"

fun spec_op :: "fs_op \<Rightarrow> file_map \<Rightarrow> fs_out \<times> file_map" where
  "spec_op (FCreate n) m = map_prod FResult id (spec_create n m)"
| "spec_op (FDelete n) m = map_prod FResult id (spec_delete n m)"
| "spec_op (FWrite n t) m = map_prod FResult id (spec_write n t m)"
| "spec_op (FRead n) m = (FText (spec_read n m), m)"

text \<open>A store run through a sequence of operations: what it answers, and the final store.\<close>

fun run_ops :: "(fs_op \<Rightarrow> 's \<Rightarrow> fs_out \<times> 's) \<Rightarrow> fs_op list \<Rightarrow> 's \<Rightarrow> fs_out list \<times> 's" where
  "run_ops step [] s = ([], s)"
| "run_ops step (x # xs) s =
     (case step x s of (out, s1) \<Rightarrow> (case run_ops step xs s1 of (outs, s2) \<Rightarrow> (out # outs, s2)))"

fun store_op ::
    "(string \<Rightarrow> 's \<Rightarrow> fs_result \<times> 's) \<Rightarrow> (string \<Rightarrow> 's \<Rightarrow> fs_result \<times> 's) \<Rightarrow>
     (string \<Rightarrow> string \<Rightarrow> 's \<Rightarrow> fs_result \<times> 's) \<Rightarrow> (string \<Rightarrow> 's \<Rightarrow> string + string) \<Rightarrow>
     fs_op \<Rightarrow> 's \<Rightarrow> fs_out \<times> 's" where
  "store_op create delete write read (FCreate n) s = map_prod FResult id (create n s)"
| "store_op create delete write read (FDelete n) s = map_prod FResult id (delete n s)"
| "store_op create delete write read (FWrite n t) s = map_prod FResult id (write n t s)"
| "store_op create delete write read (FRead n) s = (FText (read n s), s)"

locale file_store =
  fixes create :: "string \<Rightarrow> 's \<Rightarrow> fs_result \<times> 's"
    and delete :: "string \<Rightarrow> 's \<Rightarrow> fs_result \<times> 's"
    and "write" :: "string \<Rightarrow> string \<Rightarrow> 's \<Rightarrow> fs_result \<times> 's"
    and read :: "string \<Rightarrow> 's \<Rightarrow> string + string"
    and view :: "'s \<Rightarrow> file_map"
    and wf :: "'s \<Rightarrow> bool"
  assumes create_law: "wf s \<Longrightarrow> map_prod id view (create n s) = spec_create n (view s)"
    and delete_law: "wf s \<Longrightarrow> map_prod id view (delete n s) = spec_delete n (view s)"
    and write_law: "wf s \<Longrightarrow> map_prod id view (write n t s) = spec_write n t (view s)"
    and read_law: "wf s \<Longrightarrow> read n s = spec_read n (view s)"
    and create_wf: "wf s \<Longrightarrow> wf (snd (create n s))"
    and delete_wf: "wf s \<Longrightarrow> wf (snd (delete n s))"
    and write_wf: "wf s \<Longrightarrow> wf (snd (write n t s))"
begin

abbreviation do_op :: "fs_op \<Rightarrow> 's \<Rightarrow> fs_out \<times> 's" where
  "do_op \<equiv> store_op create delete write read"

lemma store_op_law: "wf s \<Longrightarrow> map_prod id view (do_op x s) = spec_op x (view s)"
  by (cases x) (auto simp: map_prod_def split_beta prod_eq_iff
      create_law [symmetric] delete_law [symmetric] write_law [symmetric] read_law)

lemma store_op_wf: "wf s \<Longrightarrow> wf (snd (do_op x s))"
  by (cases x) (auto simp: create_wf delete_wf write_wf)

lemma run_ops_refine:
  assumes "wf s"
  shows "map_prod id view (run_ops do_op xs s) = run_ops spec_op xs (view s) \<and>
    wf (snd (run_ops do_op xs s))"
  using assms
proof (induction xs arbitrary: s)
  case (Cons x xs)
  obtain out s1 where x: "do_op x s = (out, s1)" by (cases "do_op x s")
  then have "spec_op x (view s) = (out, view s1)" "wf s1"
    using store_op_law [OF Cons.prems, of x] store_op_wf [OF Cons.prems, of x] by auto
  with Cons.IH [of s1] x show ?case by (auto split: prod.splits)
qed simp

lemma read_after_write:
  assumes "wf s" "write n t s = (Inr (), s')"
  shows "read n' s' = (if n' = n then Inr t else read n' s)"
proof -
  have "spec_write n t (view s) = (Inr (), view s')" and wf': "wf s'"
    using write_law [OF assms(1), of n t] write_wf [OF assms(1), of n t] assms(2) by auto
  then have "view s' = (view s)(n \<mapsto> t)"
    by (auto simp: spec_write_def split: if_splits)
  then show ?thesis
    using assms(1) wf' by (simp add: read_law spec_read_def)
qed

end

section \<open>The vector implements the interface\<close>

definition fs_view :: "file_entry list \<Rightarrow> file_map" where
  "fs_view files = map_of (map (\<lambda>f. (file_name f, contents f)) files)"

definition fs_wf :: "file_entry list \<Rightarrow> bool" where
  "fs_wf files \<longleftrightarrow>
     distinct (map file_name files) \<and> length files \<le> MAX_FILES \<and>
     list_all (\<lambda>f. is_valid_name (file_name f) \<and> length (contents f) \<le> MAX_FILE_SIZE) files"

lemma dom_fs_view: "dom (fs_view files) = file_name ` set files"
  by (simp add: fs_view_def dom_map_of_conv_image_fst image_image)

lemma card_dom_fs_view: "distinct (map file_name files) \<Longrightarrow> card (dom (fs_view files)) = length files"
  unfolding dom_fs_view by (metis distinct_card length_map list.set_map)

lemma fs_view_append [simp]: "fs_view (xs @ ys) = fs_view ys ++ fs_view xs"
  by (simp add: fs_view_def)

lemma fs_view_Cons [simp]: "fs_view (f # fs) = (fs_view fs)(file_name f \<mapsto> contents f)"
  by (simp add: fs_view_def)

lemma fs_view_Nil [simp]: "fs_view [] = Map.empty"
  by (simp add: fs_view_def)

text \<open>Where an operation finds its file, and that no other file has that name.\<close>

lemma named_file_split:
  assumes "distinct (map file_name files)" "position (\<lambda>f. file_name f = n) files = Some i"
  obtains us f vs where "files = us @ f # vs" "length us = i" "file_name f = n"
    "n \<notin> file_name ` set us" "n \<notin> file_name ` set vs"
proof -
  have i: "i < length files" "file_name (files ! i) = n" using assms(2) by (auto dest: position_SomeD)
  then have eq: "files = take i files @ files ! i # drop (Suc i) files" by (simp add: id_take_nth_drop)
  then have "distinct (map file_name (take i files) @ n # map file_name (drop (Suc i) files))"
    using assms(1) i(2) by (metis list.simps(9) map_append)
  then have "n \<notin> file_name ` set (take i files)" "n \<notin> file_name ` set (drop (Suc i) files)"
    by auto
  with that [OF eq] i show thesis by simp
qed

lemma fs_view_notin: "n \<notin> file_name ` set files \<Longrightarrow> fs_view files n = None"
  using dom_fs_view [of files] by auto

lemma fs_find: "find (\<lambda>f. file_name f = n) files = Some f \<Longrightarrow> fs_view files n = Some (contents f)"
  by (induction files) (auto split: if_splits)

lemma fs_position_dom:
  "(\<exists>i. position (\<lambda>f. file_name f = n) files = Some i) \<longleftrightarrow> n \<in> dom (fs_view files)"
  unfolding dom_fs_view by (auto simp: position_ex dest: position_SomeD nth_mem)

lemma fs_create_view:
  assumes "fs_wf files"
  shows "map_prod id fs_view (create_file n files) = spec_create n (fs_view files)"
proof -
  have "list_ex (\<lambda>f. file_name f = n) files \<longleftrightarrow> n \<in> dom (fs_view files)"
    by (auto simp: list_ex_iff dom_fs_view)
  moreover have "card (dom (fs_view files)) = length files"
    using assms by (simp add: fs_wf_def card_dom_fs_view)
  ultimately show ?thesis
    by (auto simp: create_file_def spec_create_def fun_eq_iff map_add_def split: option.splits)
qed

lemma fs_delete_view:
  assumes "fs_wf files"
  shows "map_prod id fs_view (delete_file n files) = spec_delete n (fs_view files)"
proof (cases "position (\<lambda>f. file_name f = n) files")
  case None
  then show ?thesis
    using fs_position_dom [of n files] by (auto simp: delete_file_def spec_delete_def)
next
  case (Some i)
  have "distinct (map file_name files)" using assms by (simp add: fs_wf_def)
  from named_file_split [OF this Some] obtain us f vs where
    s: "files = us @ f # vs" "length us = i" "file_name f = n"
      "n \<notin> file_name ` set us" "n \<notin> file_name ` set vs" .
  then have "fs_view (us @ vs) = (fs_view files)(n := None)"
    by (auto simp: fun_eq_iff map_add_def fs_view_notin split: option.splits)
  then show ?thesis
    using Some s fs_position_dom [of n files] by (auto simp: delete_file_def spec_delete_def)
qed

lemma fs_write_view:
  assumes "fs_wf files"
  shows "map_prod id fs_view (write_file n t files) = spec_write n t (fs_view files)"
proof (cases "position (\<lambda>f. file_name f = n) files")
  case None
  then show ?thesis
    using fs_position_dom [of n files] by (auto simp: write_file_def spec_write_def)
next
  case (Some i)
  have "distinct (map file_name files)" using assms by (simp add: fs_wf_def)
  from named_file_split [OF this Some] obtain us f vs where
    s: "files = us @ f # vs" "length us = i" "file_name f = n"
      "n \<notin> file_name ` set us" "n \<notin> file_name ` set vs" .
  then have "files[i := (files ! i)\<lparr>contents := t\<rparr>] = us @ f\<lparr>contents := t\<rparr> # vs"
    by (simp add: list_update_append nth_append)
  moreover have "fs_view (us @ f\<lparr>contents := t\<rparr> # vs) = (fs_view files)(n \<mapsto> t)"
    using s by (auto simp: fun_eq_iff map_add_def fs_view_notin split: option.splits)
  ultimately show ?thesis
    using Some fs_position_dom [of n files] by (auto simp: write_file_def spec_write_def)
qed

lemma fs_read_view: "read_file n files = spec_read n (fs_view files)"
proof (cases "find (\<lambda>f. file_name f = n) files")
  case None
  then have "n \<notin> file_name ` set files" by (auto simp: find_None_iff)
  with None show ?thesis by (simp add: read_file_def spec_read_def fs_view_notin)
next
  case (Some f)
  with fs_find [OF Some] show ?thesis by (simp add: read_file_def spec_read_def)
qed

lemma fs_create_wf: "fs_wf files \<Longrightarrow> fs_wf (snd (create_file n files))"
  by (auto simp: create_file_def fs_wf_def list_ex_iff)

lemma fs_delete_wf: "fs_wf files \<Longrightarrow> fs_wf (snd (delete_file n files))"
  using set_remove_at [of _ files]
  by (auto simp: delete_file_def fs_wf_def map_remove_at distinct_remove_at list_all_iff
      split: option.splits dest: position_SomeD)

lemma list_all_update: "list_all P xs \<Longrightarrow> P x \<Longrightarrow> list_all P (xs[i := x])"
  by (induction xs arbitrary: i) (auto split: nat.splits)

lemma fs_write_wf:
  assumes "fs_wf files"
  shows "fs_wf (snd (write_file n t files))"
proof (cases "position (\<lambda>f. file_name f = n) files")
  case None
  then show ?thesis using assms by (simp add: write_file_def)
next
  case (Some i)
  then have i: "i < length files" by (rule position_SomeD)
  then have "is_valid_name (file_name (files ! i))"
    using assms by (simp add: fs_wf_def list_all_length)
  moreover have "map file_name (files[i := (files ! i)\<lparr>contents := t\<rparr>]) = map file_name files"
    using i by (simp add: map_update_same)
  ultimately show ?thesis
    using assms Some by (simp add: write_file_def fs_wf_def list_all_update)
qed

interpretation fs: file_store create_file delete_file write_file read_file fs_view fs_wf
  by unfold_locales
    (simp_all add: fs_create_view fs_delete_view fs_write_view fs_read_view
      fs_create_wf fs_delete_wf fs_write_wf)

lemma fs_wf_Nil [simp]: "fs_wf []"
  by (simp add: fs_wf_def)

section \<open>Properties\<close>

abbreviation fs_op_step :: "fs_op \<Rightarrow> file_entry list \<Rightarrow> fs_out \<times> file_entry list" where
  "fs_op_step \<equiv> store_op create_file delete_file write_file read_file"

text \<open>C26: run through any sequence of create, delete, write and read calls, the file system
  answers exactly like a map from names to texts, every error included, and its final contents
  are the map's.\<close>

theorem ramfs_refines_map:
  "map_prod id fs_view (run_ops fs_op_step xs []) = run_ops spec_op xs Map.empty"
  using fs.run_ops_refine [of "[]" xs] by simp

lemma fs_total_sum:
  assumes "sum_list (map (length \<circ> contents) files) < 2 ^ 32"
  shows "fs_total files = sum_list (map (length \<circ> contents) files)"
proof -
  have "acc + sum_list (map (length \<circ> contents) files) < 2 ^ 32 \<Longrightarrow>
    fold (\<lambda>file total. min (2 ^ 32 - 1) (total + length (contents file))) files acc =
    acc + sum_list (map (length \<circ> contents) files)" for acc
  proof (induction files arbitrary: acc)
    case (Cons f files)
    then have "min (2 ^ 32 - 1) (acc + length (contents f)) = acc + length (contents f)" by simp
    with Cons show ?case by simp
  qed simp
  from this [of 0] assms show ?thesis by (simp add: fs_total_def)
qed

lemma fs_wf_sum:
  assumes "fs_wf files"
  shows "sum_list (map (length \<circ> contents) files) \<le> MAX_FILES * MAX_FILE_SIZE"
proof -
  have "sum_list (map (length \<circ> contents) files) \<le> length files * MAX_FILE_SIZE"
    using assms unfolding fs_wf_def by (induction files) auto
  also have "\<dots> \<le> MAX_FILES * MAX_FILE_SIZE" using assms by (simp add: fs_wf_def)
  finally show ?thesis .
qed

text \<open>Whatever calls were made, the file system holds at most 64 files with distinct, valid
  names and at most 2048 bytes each; the reported total is the exact sum of the sizes (the
  saturating addition never saturates) and the listing gives each file once with its size.\<close>

lemma ramfs_limits:
  fixes xs
  defines "files \<equiv> snd (run_ops fs_op_step xs [])"
  shows "fs_wf files \<and>
     total_bytes (fs_stats_of files) = sum_list (map (length \<circ> contents) files) \<and>
     total_bytes (fs_stats_of files) \<le> 131072 \<and> file_count (fs_stats_of files) \<le> 64 \<and>
     map_of (map (\<lambda>i. (info_name i, info_size i)) (list_files files)) = map_option length \<circ> fs_view files"
proof -
  have wf: "fs_wf files"
    using fs.run_ops_refine [of "[]" xs] by (simp add: files_def)
  have le: "sum_list (map (length \<circ> contents) files) \<le> 131072"
    using fs_wf_sum [OF wf] by (simp add: MAX_FILES_def MAX_FILE_SIZE_def)
  moreover have "map_of (map (\<lambda>i. (info_name i, info_size i)) (list_files files)) =
      map_option length \<circ> fs_view files"
    unfolding list_files_def by (induction files) (auto simp: fun_eq_iff)
  moreover have "length files \<le> 64" using wf by (simp add: fs_wf_def MAX_FILES_def)
  ultimately show ?thesis
    using wf fs_total_sum [of files] by (simp add: fs_stats_of_def)
qed

end
