(* ===== verification/Keyboard.thy ===== *)
theory Keyboard
  imports Text_Fmt
begin

text \<open>
  The keyboard decoder of \<^verbatim>\<open>src/src/shell.rs\<close>: set-1 scancodes to characters and editing
  actions, with the shift, caps-lock and extended-prefix state. \<open>decode_scancode\<close> is the part
  of \<^verbatim>\<open>process_scancode\<close> up to the dispatch on the action; the dispatch is in the theory
  of the shell.
\<close>

record keyboard_state =
  shift_pressed :: bool
  caps_lock :: bool
  extended_prefix :: bool

definition keyboard_init :: keyboard_state where
  "keyboard_init = \<lparr>shift_pressed = False, caps_lock = False, extended_prefix = False\<rparr>"

datatype input_action = Backspace | Enter | Tab | HistoryUp | HistoryDown | Char char

definition map_letter_base :: "u8 \<Rightarrow> char option" where
  "map_letter_base scancode = map_of
     [(0x10, CHR ''q''), (0x11, CHR ''w''), (0x12, CHR ''e''), (0x13, CHR ''r''),
      (0x14, CHR ''t''), (0x15, CHR ''y''), (0x16, CHR ''u''), (0x17, CHR ''i''),
      (0x18, CHR ''o''), (0x19, CHR ''p''),
      (0x1E, CHR ''a''), (0x1F, CHR ''s''), (0x20, CHR ''d''), (0x21, CHR ''f''),
      (0x22, CHR ''g''), (0x23, CHR ''h''), (0x24, CHR ''j''), (0x25, CHR ''k''),
      (0x26, CHR ''l''),
      (0x2C, CHR ''z''), (0x2D, CHR ''x''), (0x2E, CHR ''c''), (0x2F, CHR ''v''),
      (0x30, CHR ''b''), (0x31, CHR ''n''), (0x32, CHR ''m'')] scancode"

text \<open>Per key the character with and without shift; 0x27 is the apostrophe, 0x22 the double
  quote, 0x5C the backslash and 0x60 the grave accent.\<close>

definition map_non_letter :: "u8 \<Rightarrow> bool \<Rightarrow> char option" where
  "map_non_letter scancode shifted = map_option (\<lambda>(s, p). if shifted then s else p) (map_of
     [(0x02, (CHR ''!'', CHR ''1'')), (0x03, (CHR ''@'', CHR ''2'')),
      (0x04, (CHR ''#'', CHR ''3'')), (0x05, (CHR ''$'', CHR ''4'')),
      (0x06, (CHR ''%'', CHR ''5'')), (0x07, (CHR ''^'', CHR ''6'')),
      (0x08, (CHR ''&'', CHR ''7'')), (0x09, (CHR ''*'', CHR ''8'')),
      (0x0A, (CHR ''('', CHR ''9'')), (0x0B, (CHR '')'', CHR ''0'')),
      (0x0C, (CHR ''_'', CHR ''-'')), (0x0D, (CHR ''+'', CHR ''='')),
      (0x1A, (CHR ''{'', CHR ''['')), (0x1B, (CHR ''}'', CHR '']'')),
      (0x27, (CHR '':'', CHR '';'')), (0x28, (CHR 0x22, CHR 0x27)),
      (0x29, (CHR ''~'', CHR 0x60)), (0x2B, (CHR ''|'', CHR 0x5C)),
      (0x33, (CHR ''<'', CHR '','')), (0x34, (CHR ''>'', CHR ''.'')),
      (0x35, (CHR ''?'', CHR ''/'')), (0x39, (CHR '' '', CHR '' '')),
      (0x37, (CHR ''*'', CHR ''*'')), (0x47, (CHR ''7'', CHR ''7'')),
      (0x48, (CHR ''8'', CHR ''8'')), (0x49, (CHR ''9'', CHR ''9'')),
      (0x4A, (CHR ''-'', CHR ''-'')), (0x4B, (CHR ''4'', CHR ''4'')),
      (0x4C, (CHR ''5'', CHR ''5'')), (0x4D, (CHR ''6'', CHR ''6'')),
      (0x4E, (CHR ''+'', CHR ''+'')), (0x4F, (CHR ''1'', CHR ''1'')),
      (0x50, (CHR ''2'', CHR ''2'')), (0x51, (CHR ''3'', CHR ''3'')),
      (0x52, (CHR ''0'', CHR ''0'')), (0x53, (CHR ''.'', CHR ''.''))] scancode)"

definition to_ascii_uppercase :: "char \<Rightarrow> char" where
  "to_ascii_uppercase c =
     (if 97 \<le> (of_char c :: nat) \<and> (of_char c :: nat) \<le> 122
      then char_of ((of_char c :: nat) - 32) else c)"

definition map_key :: "u8 \<Rightarrow> bool \<Rightarrow> bool \<Rightarrow> char option" where
  "map_key scancode shifted caps =
     (case map_letter_base scancode of
        Some c \<Rightarrow> Some (if caps \<noteq> shifted then to_ascii_uppercase c else c)
      | None \<Rightarrow> map_non_letter scancode shifted)"

definition decode_scancode ::
    "u8 \<Rightarrow> keyboard_state \<Rightarrow> input_action option \<times> keyboard_state" where
  "decode_scancode scancode kb =
     (if scancode = 0xE0 then (None, kb\<lparr>extended_prefix := True\<rparr>)
      else
        let is_release = (scancode AND 0x80 \<noteq> 0); code = scancode AND 0x7F in
        if extended_prefix kb then
          (if is_release then None
           else if code = 0x48 then Some HistoryUp
           else if code = 0x50 then Some HistoryDown
           else None,
           kb\<lparr>extended_prefix := False\<rparr>)
        else if is_release then
          (None, if code = 0x2A \<or> code = 0x36 then kb\<lparr>shift_pressed := False\<rparr> else kb)
        else if code = 0x2A \<or> code = 0x36 then (None, kb\<lparr>shift_pressed := True\<rparr>)
        else if code = 0x3A then (None, kb\<lparr>caps_lock := \<not> caps_lock kb\<rparr>)
        else if code = 0x0E then (Some Backspace, kb)
        else if code = 0x1C then (Some Enter, kb)
        else if code = 0x0F then (Some Tab, kb)
        else (map_option Char (map_key code (shift_pressed kb) (caps_lock kb)), kb))"

fun decode_all :: "u8 list \<Rightarrow> keyboard_state \<Rightarrow> input_action list \<times> keyboard_state" where
  "decode_all [] kb = ([], kb)"
| "decode_all (sc # scs) kb =
     (case decode_scancode sc kb of (act, kb1) \<Rightarrow>
       (case decode_all scs kb1 of (acts, kb2) \<Rightarrow>
         (case act of None \<Rightarrow> acts | Some a \<Rightarrow> a # acts, kb2)))"

section \<open>The key map\<close>

definition printable :: "char \<Rightarrow> bool" where
  "printable c \<longleftrightarrow> 32 \<le> (of_char c :: nat) \<and> (of_char c :: nat) \<le> 126"

lemma map_letter_base_lower:
  "map_letter_base sc = Some c \<Longrightarrow> 97 \<le> (of_char c :: nat) \<and> (of_char c :: nat) \<le> 122"
  by (auto simp: map_letter_base_def split: if_splits)

lemma map_non_letter_range:
  "map_non_letter sc s = Some c \<Longrightarrow> 32 \<le> (of_char c :: nat) \<and> (of_char c :: nat) \<le> 126"
  unfolding map_non_letter_def
  by (drule map_option_eq_Some [THEN iffD1], elim exE conjE, drule map_of_SomeD) (auto split: if_splits)

lemma to_ascii_uppercase_lower:
  "97 \<le> (of_char c :: nat) \<Longrightarrow> (of_char c :: nat) \<le> 122 \<Longrightarrow>
   (of_char (to_ascii_uppercase c) :: nat) = of_char c - 32"
  by (simp add: to_ascii_uppercase_def of_char_of)

lemma map_key_printable: "map_key sc s k = Some c \<Longrightarrow> printable c"
  by (auto simp: map_key_def printable_def to_ascii_uppercase_lower split: option.splits if_splits
      dest!: map_letter_base_lower map_non_letter_range)

section \<open>Typing\<close>

text \<open>
  The US layout, as a typist uses it: the key and whether shift is held, for each of the 95
  printable ASCII characters. \<open>keystrokes\<close> is what the keyboard sends for a character: the
  make and break codes of the key, between those of the left shift key where it is needed.
\<close>

definition us_layout :: "(char \<times> (u8 \<times> bool)) list" where
  "us_layout = [
    (CHR '' '', (0x39, False)), (CHR ''!'', (0x02, True)), (CHR 0x22, (0x28, True)),
    (CHR ''#'', (0x04, True)), (CHR ''$'', (0x05, True)), (CHR ''%'', (0x06, True)),
    (CHR ''&'', (0x08, True)), (CHR 0x27, (0x28, False)), (CHR ''('', (0x0A, True)),
    (CHR '')'', (0x0B, True)), (CHR ''*'', (0x09, True)), (CHR ''+'', (0x0D, True)),
    (CHR '','', (0x33, False)), (CHR ''-'', (0x0C, False)), (CHR ''.'', (0x34, False)),
    (CHR ''/'', (0x35, False)), (CHR ''0'', (0x0B, False)), (CHR ''1'', (0x02, False)),
    (CHR ''2'', (0x03, False)), (CHR ''3'', (0x04, False)), (CHR ''4'', (0x05, False)),
    (CHR ''5'', (0x06, False)), (CHR ''6'', (0x07, False)), (CHR ''7'', (0x08, False)),
    (CHR ''8'', (0x09, False)), (CHR ''9'', (0x0A, False)), (CHR '':'', (0x27, True)),
    (CHR '';'', (0x27, False)), (CHR ''<'', (0x33, True)), (CHR ''='', (0x0D, False)),
    (CHR ''>'', (0x34, True)), (CHR ''?'', (0x35, True)), (CHR ''@'', (0x03, True)),
    (CHR ''A'', (0x1E, True)), (CHR ''B'', (0x30, True)), (CHR ''C'', (0x2E, True)),
    (CHR ''D'', (0x20, True)), (CHR ''E'', (0x12, True)), (CHR ''F'', (0x21, True)),
    (CHR ''G'', (0x22, True)), (CHR ''H'', (0x23, True)), (CHR ''I'', (0x17, True)),
    (CHR ''J'', (0x24, True)), (CHR ''K'', (0x25, True)), (CHR ''L'', (0x26, True)),
    (CHR ''M'', (0x32, True)), (CHR ''N'', (0x31, True)), (CHR ''O'', (0x18, True)),
    (CHR ''P'', (0x19, True)), (CHR ''Q'', (0x10, True)), (CHR ''R'', (0x13, True)),
    (CHR ''S'', (0x1F, True)), (CHR ''T'', (0x14, True)), (CHR ''U'', (0x16, True)),
    (CHR ''V'', (0x2F, True)), (CHR ''W'', (0x11, True)), (CHR ''X'', (0x2D, True)),
    (CHR ''Y'', (0x15, True)), (CHR ''Z'', (0x2C, True)), (CHR ''['', (0x1A, False)),
    (CHR 0x5C, (0x2B, False)), (CHR '']'', (0x1B, False)), (CHR ''^'', (0x07, True)),
    (CHR ''_'', (0x0C, True)), (CHR 0x60, (0x29, False)), (CHR ''a'', (0x1E, False)),
    (CHR ''b'', (0x30, False)), (CHR ''c'', (0x2E, False)), (CHR ''d'', (0x20, False)),
    (CHR ''e'', (0x12, False)), (CHR ''f'', (0x21, False)), (CHR ''g'', (0x22, False)),
    (CHR ''h'', (0x23, False)), (CHR ''i'', (0x17, False)), (CHR ''j'', (0x24, False)),
    (CHR ''k'', (0x25, False)), (CHR ''l'', (0x26, False)), (CHR ''m'', (0x32, False)),
    (CHR ''n'', (0x31, False)), (CHR ''o'', (0x18, False)), (CHR ''p'', (0x19, False)),
    (CHR ''q'', (0x10, False)), (CHR ''r'', (0x13, False)), (CHR ''s'', (0x1F, False)),
    (CHR ''t'', (0x14, False)), (CHR ''u'', (0x16, False)), (CHR ''v'', (0x2F, False)),
    (CHR ''w'', (0x11, False)), (CHR ''x'', (0x2D, False)), (CHR ''y'', (0x15, False)),
    (CHR ''z'', (0x2C, False)), (CHR ''{'', (0x1A, True)), (CHR ''|'', (0x2B, True)),
    (CHR ''}'', (0x1B, True)), (CHR ''~'', (0x29, True))]"

definition keystrokes :: "char \<Rightarrow> u8 list" where
  "keystrokes c =
     (case map_of us_layout c of
        None \<Rightarrow> []
      | Some (sc, False) \<Rightarrow> [sc, sc OR 0x80]
      | Some (sc, True) \<Rightarrow> [0x2A, sc, sc OR 0x80, 0xAA])"

definition types_char :: "char \<times> (u8 \<times> bool) \<Rightarrow> bool" where
  "types_char e =
     (case e of (c, (sc, s)) \<Rightarrow>
        map_key sc s False = Some c \<and> sc \<notin> {0x2A, 0x36, 0x3A, 0x0E, 0x1C, 0x0F} \<and>
        sc AND 0x80 = 0 \<and> sc AND 0x7F = sc \<and> (sc OR 0x80) AND 0x80 \<noteq> 0 \<and>
        (sc OR 0x80) AND 0x7F = sc \<and> sc \<noteq> 0xE0 \<and> sc OR 0x80 \<noteq> 0xE0)"

lemma us_layout_types: "list_all types_char us_layout"
  by (simp add: us_layout_def types_char_def map_key_def map_letter_base_def map_non_letter_def
      to_ascii_uppercase_def char_of_def bit_Suc_0_iff)

lemma us_layout_complete: "map fst us_layout = map char_of [32..<127]"
  by (simp add: us_layout_def upt_rec_numeral char_of_def bit_Suc_0_iff)

lemma printable_in_layout:
  assumes "printable c"
  obtains sc s where "map_of us_layout c = Some (sc, s)" "types_char (c, (sc, s))"
proof -
  have "c = char_of (of_char c :: nat)" by simp
  moreover have "(of_char c :: nat) \<in> set [32..<127]"
    using assms unfolding printable_def set_upt atLeastLessThan_iff by linarith
  ultimately have "c \<in> set (map fst us_layout)"
    unfolding us_layout_complete by (metis image_eqI list.set_map)
  then obtain e where e: "map_of us_layout c = Some e"
    by (metis list.set_map map_of_eq_None_iff not_Some_eq)
  then have "(c, e) \<in> set us_layout" by (rule map_of_SomeD)
  then have "types_char (c, e)" using us_layout_types by (auto simp: list_all_iff)
  then show thesis using that e by (cases e) auto
qed

lemma decode_make:
  assumes "types_char (c, (sc, shift_pressed kb))" "\<not> extended_prefix kb" "\<not> caps_lock kb"
  shows "decode_scancode sc kb = (Some (Char c), kb)"
    and "decode_scancode (sc OR 0x80) kb = (None, kb)"
  using assms by (auto simp: types_char_def decode_scancode_def Let_def)

lemma shift_keys:
  "\<not> extended_prefix kb \<Longrightarrow> decode_scancode 0x2A kb = (None, kb\<lparr>shift_pressed := True\<rparr>)"
  "\<not> extended_prefix kb \<Longrightarrow> decode_scancode 0xAA kb = (None, kb\<lparr>shift_pressed := False\<rparr>)"
  by (simp_all add: decode_scancode_def)

lemma decode_keystrokes:
  assumes "printable c" "\<not> extended_prefix kb" "\<not> caps_lock kb" "\<not> shift_pressed kb"
  shows "decode_all (keystrokes c) kb = ([Char c], kb)"
proof -
  obtain sc s where e: "map_of us_layout c = Some (sc, s)" "types_char (c, (sc, s))"
    using printable_in_layout [OF assms(1)] .
  show ?thesis
  proof (cases s)
    case True
    have "kb\<lparr>shift_pressed := True, shift_pressed := False\<rparr> = kb" using assms(4) by simp
    then show ?thesis
      using e True assms decode_make [of c sc "kb\<lparr>shift_pressed := True\<rparr>"]
      by (simp add: keystrokes_def shift_keys)
  next
    case False
    then show ?thesis
      using e assms decode_make [of c sc kb] by (simp add: keystrokes_def)
  qed
qed

lemma decode_all_append:
  "decode_all (xs @ ys) kb =
     (case decode_all xs kb of (as, kb1) \<Rightarrow>
       (case decode_all ys kb1 of (bs, kb2) \<Rightarrow> (as @ bs, kb2)))"
  by (induction xs arbitrary: kb) (auto split: prod.splits option.splits)

text \<open>Bit 7 tells make from break codes; the other bits are the key.\<close>

lemma and_exp: "w AND 2 ^ n = (if bit w n then 2 ^ n else 0)" for w :: "'a::len word"
  by (rule bit_word_eqI) (auto simp: bit_simps)

lemma bit7_cases: "(sc :: u8) AND 0x80 = 0 \<or> sc AND 0x80 = 0x80"
  using and_exp [of sc 7] by (auto split: if_splits)

lemma split_bit7: "(sc AND 0x80) OR (sc AND 0x7F) = (sc :: u8)"
proof -
  have "(sc AND 0x80) OR (sc AND 0x7F) = sc AND (0x80 OR 0x7F)"
    by (rule bit.conj_disj_distrib [symmetric])
  also have "(0x80 OR 0x7F :: u8) = - 1" by simp
  finally show ?thesis by simp
qed

lemma make_code: "(sc :: u8) AND 0x80 = 0 \<Longrightarrow> sc AND 0x7F = sc"
  using split_bit7 [of sc] by simp

lemma break_code: "(sc :: u8) AND 0x80 \<noteq> 0 \<Longrightarrow> sc = 0x80 OR (sc AND 0x7F)"
  using split_bit7 [of sc] bit7_cases [of sc] by metis

lemma break_code_iff:
  assumes "(sc :: u8) AND 0x80 \<noteq> 0" "k AND 0x7F = k" "k AND 0x80 = 0"
  shows "sc AND 0x7F = k \<longleftrightarrow> sc = 0x80 OR k"
proof
  assume "sc = 0x80 OR k"
  then show "sc AND 0x7F = k" using assms(2) by (simp add: bit.conj_disj_distrib2)
qed (use break_code [OF assms(1)] in simp)

text \<open>Typing a text on a US keyboard delivers exactly that text: for every string of
  printable characters the decoder turns the keystrokes into one character action each, in
  order, and returns to its resting state.\<close>

lemma decode_typing:
  assumes "list_all printable s"
  shows "decode_all (concat (map keystrokes s)) keyboard_init = (map Char s, keyboard_init)"
  using assms
proof (induction s)
  case (Cons c s)
  then show ?case
    using decode_keystrokes [of c keyboard_init]
    by (simp add: decode_all_append keyboard_init_def)
qed simp

section \<open>Properties\<close>

text \<open>The decoder's contract for every scancode in every state: break codes and the
  prefix 0xE0 produce no action; the prefix lasts for one scancode; after a prefix only the two
  history arrows act, and without one they do not occur; a character action carries a printable
  character; shift follows the shift keys and caps lock toggles on its make code only.\<close>

lemma decode_scancode_contract:
  "(case decode_scancode sc kb of (act, kb') \<Rightarrow>
     (sc AND 0x80 \<noteq> 0 \<longrightarrow> act = None) \<and>
     extended_prefix kb' = (sc = 0xE0) \<and>
     (extended_prefix kb \<and> sc \<noteq> 0xE0 \<longrightarrow>
        act = (if sc = 0x48 then Some HistoryUp else if sc = 0x50 then Some HistoryDown else None) \<and>
        shift_pressed kb' = shift_pressed kb \<and> caps_lock kb' = caps_lock kb) \<and>
     (\<not> extended_prefix kb \<longrightarrow>
        act \<noteq> Some HistoryUp \<and> act \<noteq> Some HistoryDown \<and>
        shift_pressed kb' = (if sc = 0x2A \<or> sc = 0x36 then True
                             else if sc = 0xAA \<or> sc = 0xB6 then False else shift_pressed kb) \<and>
        caps_lock kb' = (caps_lock kb \<noteq> (sc = 0x3A))) \<and>
     (\<forall>c. act = Some (Char c) \<longrightarrow> printable c))"
proof (cases "sc AND 0x80 = 0")
  case True
  then have "sc \<noteq> 0xAA" "sc \<noteq> 0xB6" "sc \<noteq> 0xE0" by auto
  then show ?thesis
    using True make_code [OF True]
    by (auto simp: decode_scancode_def Let_def map_key_printable)
next
  case False
  then have "sc \<noteq> 0x48" "sc \<noteq> 0x50" "sc \<noteq> 0x2A" "sc \<noteq> 0x36" "sc \<noteq> 0x3A" by auto
  moreover have "sc AND 0x7F = 0x2A \<longleftrightarrow> sc = 0xAA" "sc AND 0x7F = 0x36 \<longleftrightarrow> sc = 0xB6"
    using break_code_iff [OF False, of "0x2A"] break_code_iff [OF False, of "0x36"] by simp_all
  ultimately show ?thesis
    using False by (simp add: decode_scancode_def Let_def)
qed

end
