(* ===== verification/Shell_Commands.thy ===== *)
theory Shell_Commands
  imports Calc_Parser History Ramfs Scheduler Devices Heap_Allocator Keyboard Scancode_Queue
    "HOL-Library.Char_ord" "HOL-Library.List_Lexorder"
begin

text \<open>
  The built-in commands of the shell, \<^verbatim>\<open>src/src/shell.rs\<close> from \<^verbatim>\<open>show_help\<close> to
  \<^verbatim>\<open>evaluate_command\<close>. The statics of the shell and the state of the components the
  commands call are one record; each lock is held for one field access at a time, so a command
  is a function from state to output and state. The heap statistics depend on every allocation
  of the kernel; what \<^verbatim>\<open>heap_stats\<close> would return is a field.
\<close>

section \<open>Session\<close>

datatype session_user = Enos | Guest

fun user_name :: "session_user \<Rightarrow> string" where
  "user_name Enos = ''enos''"
| "user_name Guest = ''guest''"

fun user_uid :: "session_user \<Rightarrow> u32" where
  "user_uid Enos = 0"
| "user_uid Guest = 1000"

definition user_is_root :: "session_user \<Rightarrow> bool" where
  "user_is_root u \<longleftrightarrow> u = Enos"

definition prompt_suffix :: "session_user \<Rightarrow> string" where
  "prompt_suffix u = (if user_is_root u then ''#'' else ''$'')"

record shell_state =
  input_buffer :: string
  keyboard :: keyboard_state
  history :: history_state
  session :: session_user
  scancodes :: scancode_queue
  files :: "file_entry list"
  task_mgr :: task_manager
  heap_view :: heap_stats

definition session_new :: session_user where
  "session_new = Enos"

text \<open>The statics before the first use; the scheduler and the heap are those of the kernel.\<close>

definition shell_statics :: "task_manager \<Rightarrow> heap_stats \<Rightarrow> shell_state" where
  "shell_statics tm heap =
     \<lparr>input_buffer = [], keyboard = keyboard_init, history = history_new, session = session_new,
      scancodes = scancode_queue_new, files = [], task_mgr = tm, heap_view = heap\<rparr>"

type_synonym shell_op = "shell_state \<Rightarrow> console_op list \<times> shell_state"

definition print_prompt :: "shell_state \<Rightarrow> console_op" where
  "print_prompt st = Screen (user_name (session st) @ prompt_suffix (session st) @ '' '')"

definition require_root :: "string \<Rightarrow> shell_state \<Rightarrow> bool \<times> console_op list" where
  "require_root action st =
     (if user_is_root (session st) then (True, [])
      else (False, [println (''Permission denied: '' @ [CHR 0x60] @ action @ [CHR 0x60] @ '' requires enos root.'')]))"

definition switch_user :: "session_user \<Rightarrow> shell_state \<Rightarrow> shell_state" where
  "switch_user u st = st\<lparr>session := u\<rparr>"

section \<open>Formatting\<close>

definition format_duration_from_ticks :: "u64 \<Rightarrow> u64 \<times> u64 \<times> u64 \<times> u64" where
  "format_duration_from_ticks n =
     (let total_ms = ticks_to_millis n;
          total_seconds = total_ms div 1000;
          ms = total_ms mod 1000;
          hours = total_seconds div 3600;
          minutes = total_seconds mod 3600 div 60;
          seconds = total_seconds mod 60
      in (hours, minutes, seconds, ms))"

definition fmt_uptime :: "u64 \<Rightarrow> string" where
  "fmt_uptime n =
     (case format_duration_from_ticks n of (h, m, s, ms) \<Rightarrow>
        pad_zero 2 (show_word h) @ '':'' @ pad_zero 2 (show_word m) @ '':'' @
        pad_zero 2 (show_word s) @ ''.'' @ pad_zero 3 (show_word ms))"

definition format_bytes :: "nat \<Rightarrow> string" where
  "format_bytes bytes =
     (if bytes \<ge> 1024 * 1024 then
        let mb = bytes div (1024 * 1024); rem = bytes mod (1024 * 1024) div (1024 * 10)
        in ''~'' @ show_nat mb @ ''.'' @ show_nat rem @ '' MB''
      else if bytes \<ge> 1024 then
        let kb = bytes div 1024; rem = bytes mod 1024 * 10 div 1024
        in ''~'' @ show_nat kb @ ''.'' @ show_nat rem @ '' KB''
      else show_nat bytes @ '' B'')"

section \<open>Commands\<close>

definition help_lines :: "string list" where
  "help_lines =
     [''ENOS built-in commands:'',
      ''  help                 - Show this list'',
      ''  clear                - Clear screen'',
      ''  echo <msg>           - Print message'',
      ''  calc <expr>          - Arithmetic (+,-,*,/,%,())'',
      ''  uptime               - Show human-readable uptime'',
      ''  ps                   - Show running processes'',
      ''  top                  - Show process CPU usage'',
      ''  tasks                - Show scheduler stats + process list'',
      ''  meminfo              - Show memory usage'',
      ''  whoami               - Show current shell user'',
      ''  id                   - Show user identity'',
      ''  login <enos|guest>   - Switch shell identity'',
      ''  su <enos|guest>      - Alias for login'',
      ''  logout               - Switch to guest'',
      ''  kill <pid>           - Kill user process (root only)'',
      ''  touch <file>         - Create empty file'',
      ''  rm <file>            - Delete file (root only)'',
      ''  ls                   - List files'',
      ''  write <file> <text>  - Write text to file'',
      ''  cat <file>           - Show file content'',
      ''  fsinfo               - Show filesystem stats'',
      ''  about                - Show kernel info'']"

definition show_help :: shell_op where
  "show_help st = (map println help_lines, st)"

definition argument_text :: "string \<Rightarrow> string \<Rightarrow> string" where
  "argument_text name command_line =
     trim_start (case strip_prefix name command_line of Some s \<Rightarrow> s | None \<Rightarrow> [])"

definition command_echo :: "string \<Rightarrow> shell_op" where
  "command_echo command_line st =
     (let s = argument_text ''echo'' command_line in
      (if s = [] then [println ''Usage: echo <msg>''] else [println s], st))"

definition command_calc :: "string \<Rightarrow> shell_op" where
  "command_calc command_line st =
     (let expr = argument_text ''calc'' command_line in
      (if expr = [] then [println ''Usage: calc <expression>'']
       else case eval_calc_expression expr of
              Inr value \<Rightarrow> [println (''= '' @ show_int value)]
            | Inl err \<Rightarrow> [println (''calc: '' @ err)], st))"

definition command_uptime :: shell_op where
  "command_uptime st =
     (let t = total_ticks (stats (task_mgr st)) in
      ([println (''Uptime: '' @ fmt_uptime t @ '' ('' @ show_word t @ '' ticks @ '' @
          show_word TICKS_PER_SECOND @ '' Hz)'')], st))"

definition ps_line :: "process_row \<Rightarrow> string" where
  "ps_line p =
     pad_right 5 (show_word (ps_id p)) @ '' '' @ pad_right 8 (ps_privilege p) @ '' '' @
     pad_right 8 (ps_state p) @ '' '' @ pad_left 6 (show_word (ticks_to_millis (ps_run_ticks p))) @
     ''ms   '' @ ps_name p"

definition command_ps :: shell_op where
  "command_ps st =
     (println ''PID   PRIV     STATE    CPU-TIME   NAME'' #
      map (\<lambda>p. println (ps_line p)) (process_snapshot (task_mgr st)), st)"

definition cpu_percent :: "u64 \<Rightarrow> u64 \<Rightarrow> u64" where
  "cpu_percent used all_ticks =
     (if all_ticks = 0 then 0 else saturating_mul used 100 div all_ticks)"

definition top_line :: "u64 \<Rightarrow> process_row \<Rightarrow> string" where
  "top_line all_ticks p =
     pad_right 5 (show_word (ps_id p)) @ '' '' @
     pad_left 3 (show_word (cpu_percent (ps_run_ticks p) all_ticks)) @ ''%   '' @
     pad_left 6 (show_word (ticks_to_millis (ps_run_ticks p))) @ ''ms   '' @
     pad_right 8 (ps_state p) @ '' '' @ ps_name p"

definition command_top :: shell_op where
  "command_top st =
     (let t = total_ticks (stats (task_mgr st)) in
      (println (''TOP (ticks='' @ show_word t @ '' @ '' @ show_word TICKS_PER_SECOND @ ''Hz)'') #
       println ''PID   CPU%   CPU-TIME   STATE    NAME'' #
       map (\<lambda>p. println (top_line t p)) (process_snapshot (task_mgr st)), st))"

definition command_tasks :: shell_op where
  "command_tasks st =
     (let s = stats (task_mgr st) in
      ([println ''Scheduler:'',
        println (''  total tasks : '' @ show_nat (total_tasks s)),
        println (''  current task: '' @ show_word (current_task_id s)),
        println (''  uptime      : '' @ fmt_uptime (total_ticks s)),
        println (''  ticks       : '' @ show_word (total_ticks s))] @ fst (command_ps st), st))"

definition command_meminfo :: shell_op where
  "command_meminfo st =
     (let heap = heap_view st; fs = fs_stats_of (files st) in
      ([println ''Memory:'',
        println (''  heap used : '' @ format_bytes (unat (used_bytes heap)) @ '' ('' @
          show_word (used_percent heap) @ ''%)''),
        println (''  heap free : '' @ format_bytes (unat (free_bytes heap))),
        println (''  heap total: '' @ format_bytes (unat (heap_total_bytes heap))),
        println (''  fs usage  : '' @ show_nat (file_count fs) @ ''/'' @ show_nat (max_files fs) @
          '' files, '' @ format_bytes (total_bytes fs) @ '' data'')], st))"

definition command_whoami :: shell_op where
  "command_whoami st = ([println (user_name (session st))], st)"

definition command_id :: shell_op where
  "command_id st =
     (let u = session st; uid = show_word (user_uid u) in
      ([println (''uid='' @ uid @ ''('' @ user_name u @ '') gid='' @ uid @ ''('' @ user_name u @
          '') role='' @ (if user_is_root u then ''root'' else ''user''))], st))"

text \<open>\<^verbatim>\<open>parts.next(); parts.next()\<close> on the words of the line: the second word, if there is one.\<close>

definition second_word :: "string \<Rightarrow> string option" where
  "second_word command_line =
     (case split_whitespace command_line of _ # word # _ \<Rightarrow> Some word | _ \<Rightarrow> None)"

definition parse_login_target :: "string \<Rightarrow> string option" where
  "parse_login_target command_line = second_word command_line"

definition command_login :: "string \<Rightarrow> shell_op" where
  "command_login command_line st =
     (case parse_login_target command_line of
        None \<Rightarrow> ([println ''Usage: login <enos|guest>''], st)
      | Some target \<Rightarrow>
          if target = ''enos'' then ([println ''Switched to enos (root).''], switch_user Enos st)
          else if target = ''guest'' \<or> target = ''user''
          then ([println ''Switched to guest.''], switch_user Guest st)
          else ([println ''login: unknown user''], st))"

definition command_logout :: shell_op where
  "command_logout st = ([println ''Logged out to guest.''], switch_user Guest st)"

definition command_kill :: "string \<Rightarrow> shell_op" where
  "command_kill command_line st =
     (case require_root ''kill'' st of
        (False, out) \<Rightarrow> (out, st)
      | (True, _) \<Rightarrow>
          (case second_word command_line of
             None \<Rightarrow> ([println ''Usage: kill <pid>''], st)
           | Some pid_str \<Rightarrow>
               (case parse_usize pid_str of
                  None \<Rightarrow> ([println ''kill: invalid pid''], st)
                | Some pid \<Rightarrow>
                    (case kill_task_by_pid pid (task_mgr st) of (r, tm) \<Rightarrow>
                       let st' = st\<lparr>task_mgr := tm\<rparr>;
                           msg = (case r of
                               Inr KilledNow \<Rightarrow> ''PID '' @ show_word pid @ '' terminated.''
                             | Inr MarkedForTermination \<Rightarrow>
                                 ''PID '' @ show_word pid @ '' marked for termination (next timer tick).''
                             | Inl err \<Rightarrow> ''kill: '' @ err)
                       in (println msg # fst (command_ps st'), st')))))"

definition command_touch :: "string \<Rightarrow> shell_op" where
  "command_touch command_line st =
     (case second_word command_line of
        None \<Rightarrow> ([println ''Usage: touch <file>''], st)
      | Some name \<Rightarrow>
          (case create_file name (files st) of
             (Inr _, fs) \<Rightarrow> ([println (''Created: '' @ name)], st\<lparr>files := fs\<rparr>)
           | (Inl err, fs) \<Rightarrow> ([println (''touch: '' @ err)], st\<lparr>files := fs\<rparr>)))"

definition command_rm :: "string \<Rightarrow> shell_op" where
  "command_rm command_line st =
     (case require_root ''rm'' st of
        (False, out) \<Rightarrow> (out, st)
      | (True, _) \<Rightarrow>
          (case second_word command_line of
             None \<Rightarrow> ([println ''Usage: rm <file>''], st)
           | Some name \<Rightarrow>
               (case delete_file name (files st) of
                  (Inr _, fs) \<Rightarrow> ([println (''Deleted: '' @ name)], st\<lparr>files := fs\<rparr>)
                | (Inl err, fs) \<Rightarrow> ([println (''rm: '' @ err)], st\<lparr>files := fs\<rparr>))))"

definition command_ls :: shell_op where
  "command_ls st =
     (let fs = list_files (files st) in
      (if fs = [] then [println ''(empty)'']
       else println ''NAME                             SIZE'' #
            map (\<lambda>f. println (pad_right 32 (info_name f) @ '' '' @ format_bytes (info_size f)))
              (sort_key info_name fs), st))"

definition command_write :: "string \<Rightarrow> shell_op" where
  "command_write command_line st =
     (let usage = ([println ''Usage: write <file> <text>''], st);
          parts = splitn_space 3 command_line
      in case parts of
           _ # name # rest \<Rightarrow>
             if name = [] then usage
             else (case rest of
                 [] \<Rightarrow> usage
               | content_raw # _ \<Rightarrow>
                   (case write_file name (trim_start content_raw) (files st) of
                      (Inr _, fs) \<Rightarrow> ([println (''Written: '' @ name)], st\<lparr>files := fs\<rparr>)
                    | (Inl err, fs) \<Rightarrow> ([println (''write: '' @ err)], st\<lparr>files := fs\<rparr>)))
         | _ \<Rightarrow> usage)"

definition command_cat :: "string \<Rightarrow> shell_op" where
  "command_cat command_line st =
     (case second_word command_line of
        None \<Rightarrow> ([println ''Usage: cat <file>''], st)
      | Some name \<Rightarrow>
          (case read_file name (files st) of
             Inr content \<Rightarrow> ([println content], st)
           | Inl err \<Rightarrow> ([println (''cat: '' @ err)], st)))"

definition command_fsinfo :: shell_op where
  "command_fsinfo st =
     (let s = fs_stats_of (files st) in
      ([println ''Filesystem:'',
        println (''  files     : '' @ show_nat (file_count s) @ ''/'' @ show_nat (max_files s)),
        println (''  data size : '' @ format_bytes (total_bytes s)),
        println (''  max file  : '' @ format_bytes (max_file_size s))], st))"

definition command_about :: shell_op where
  "command_about st =
     ([println ''ENOS microkernel (x86, no_std, Rust)'',
       println ''Features: ring3 syscall gate, paging, preemptive scheduler, shell, ramfs''], st)"

section \<open>Dispatch\<close>

definition commands :: "(string \<times> (string \<Rightarrow> shell_op)) list" where
  "commands =
     [(''clear'', \<lambda>_ st. ([ClearScreen], st)), (''echo'', command_echo), (''calc'', command_calc),
      (''help'', \<lambda>_. show_help), (''uptime'', \<lambda>_. command_uptime), (''ps'', \<lambda>_. command_ps),
      (''top'', \<lambda>_. command_top), (''tasks'', \<lambda>_. command_tasks), (''meminfo'', \<lambda>_. command_meminfo),
      (''whoami'', \<lambda>_. command_whoami), (''id'', \<lambda>_. command_id), (''login'', command_login),
      (''su'', command_login), (''logout'', \<lambda>_. command_logout), (''kill'', command_kill),
      (''touch'', command_touch), (''rm'', command_rm), (''ls'', \<lambda>_. command_ls),
      (''write'', command_write), (''cat'', command_cat), (''fsinfo'', \<lambda>_. command_fsinfo),
      (''about'', \<lambda>_. command_about)]"

definition run_command :: "string \<Rightarrow> shell_op" where
  "run_command command_line st =
     (let command = (case split_whitespace command_line of c # _ \<Rightarrow> c | [] \<Rightarrow> []) in
      case map_of commands command of
        Some f \<Rightarrow> f command_line st
      | None \<Rightarrow> ([println (''Error: command not found: '' @ command_line)], st))"

definition evaluate_command :: shell_op where
  "evaluate_command st0 =
     (let command_line = trim (input_buffer st0); st = st0\<lparr>input_buffer := []\<rparr> in
      if command_line = []
      then ([print_prompt st], st\<lparr>history := reset_navigation (history st)\<rparr>)
      else let st = st\<lparr>history := history_record command_line (history st)\<rparr>;
               (out, st') = run_command command_line st
           in (out @ [print_prompt st'], st'))"

section \<open>What a command can change\<close>

text \<open>Every way a command changes the state; deleting files and killing tasks need root.\<close>

inductive effect :: "shell_state \<Rightarrow> shell_state \<Rightarrow> bool" where
  nothing: "effect st st"
| user: "effect st (st\<lparr>session := u\<rparr>)"
| kill: "session st = Enos \<Longrightarrow> effect st (st\<lparr>task_mgr := snd (kill_task_by_pid pid (task_mgr st))\<rparr>)"
| create: "effect st (st\<lparr>files := snd (create_file name (files st))\<rparr>)"
| delete: "session st = Enos \<Longrightarrow> effect st (st\<lparr>files := snd (delete_file name (files st))\<rparr>)"
| overwrite: "effect st (st\<lparr>files := snd (write_file name text (files st))\<rparr>)"

lemma effect_kill: "effect st (snd (command_kill line st))"
  unfolding command_kill_def require_root_def user_is_root_def
  by (auto simp: Let_def split: option.split prod.split intro: effect.nothing)
    (metis effect.kill snd_conv)

lemma effect_touch: "effect st (snd (command_touch line st))"
  unfolding command_touch_def
  by (auto split: option.split prod.split sum.split intro: effect.nothing)
    (metis effect.create snd_conv)+

lemma effect_rm: "effect st (snd (command_rm line st))"
  unfolding command_rm_def require_root_def user_is_root_def
  by (auto split: option.split prod.split sum.split intro: effect.nothing)
    (metis effect.delete snd_conv)+

lemma effect_write: "effect st (snd (command_write line st))"
  unfolding command_write_def Let_def
  by (auto split: list.split prod.split sum.split intro: effect.nothing)
    (metis effect.overwrite snd_conv)+

lemma effect_login: "effect st (snd (command_login line st))"
  unfolding command_login_def switch_user_def
  by (auto split: option.split intro: effect.nothing effect.user)

lemma effect_read_only:
  "snd (show_help st) = st" "snd (command_echo line st) = st" "snd (command_calc line st) = st"
  "snd (command_uptime st) = st" "snd (command_ps st) = st" "snd (command_top st) = st"
  "snd (command_tasks st) = st" "snd (command_meminfo st) = st" "snd (command_whoami st) = st"
  "snd (command_id st) = st" "snd (command_ls st) = st" "snd (command_fsinfo st) = st"
  "snd (command_about st) = st" "snd (command_cat line st) = st"
  by (simp_all add: show_help_def command_echo_def command_calc_def command_uptime_def command_ps_def
      command_top_def command_tasks_def command_meminfo_def command_whoami_def command_id_def
      command_ls_def command_fsinfo_def command_about_def command_cat_def Let_def split: option.split sum.split)

lemma commands_effect: "(name, f) \<in> set commands \<Longrightarrow> effect st (snd (f line st))"
  unfolding commands_def
  by (auto simp: effect_read_only effect_kill effect_touch effect_rm effect_write effect_login
      command_logout_def switch_user_def intro: effect.nothing effect.user)

lemma run_command_effect: "effect st (snd (run_command line st))"
  by (auto simp: run_command_def Let_def split: option.split intro: effect.nothing commands_effect dest: map_of_SomeD)

lemma effect_frame:
  "effect st st' \<Longrightarrow> input_buffer st' = input_buffer st \<and> keyboard st' = keyboard st \<and>
     history st' = history st \<and> scancodes st' = scancodes st \<and> heap_view st' = heap_view st"
  by (induction rule: effect.induct) auto

lemma effect_inv:
  "effect st st' \<Longrightarrow> (fs_wf (files st) \<longrightarrow> fs_wf (files st')) \<and>
     (sched_inv (task_mgr st) \<longrightarrow> sched_inv (task_mgr st'))"
  by (induction rule: effect.induct) (auto simp: fs_create_wf fs_delete_wf fs_write_wf kill_inv)

lemma write_file_names: "map file_name (snd (write_file n t fs)) = map file_name fs"
  by (auto simp: write_file_def map_update_same dest: position_SomeD split: option.split)

lemma effect_guest:
  "effect st st' \<Longrightarrow> session st = Guest \<Longrightarrow>
     task_mgr st' = task_mgr st \<and> file_name ` set (files st) \<subseteq> file_name ` set (files st')"
proof (induction rule: effect.induct)
  case (overwrite st name t)
  have "file_name ` set (snd (write_file name t (files st))) = file_name ` set (files st)"
    using write_file_names [of name t "files st"] by (metis list.set_map)
  then show ?case by simp
qed (auto simp: create_file_def)

lemma session_kept:
  "session (snd (command_touch line st)) = session st" "session (snd (command_write line st)) = session st"
  "session (snd (command_kill line st)) = session st" "session (snd (command_rm line st)) = session st"
  by (auto simp: command_touch_def command_write_def command_kill_def command_rm_def require_root_def Let_def
      split: option.split prod.split sum.split list.split)

lemma commands_session:
  assumes "(name, f) \<in> set commands" "session st = Guest" "name \<noteq> ''login''" "name \<noteq> ''su''"
  shows "session (snd (f line st)) = Guest"
proof -
  have "list_all (\<lambda>(n, f). n = ''login'' \<or> n = ''su'' \<or> session (snd (f line st)) = Guest) commands"
    using assms(2) by (simp add: commands_def effect_read_only session_kept command_logout_def switch_user_def)
  then show ?thesis using assms(1,3,4) by (auto simp: list_all_iff)
qed

lemma run_command_session:
  assumes "session st = Guest" "hd (split_whitespace line) \<notin> {''login'', ''su''}"
  shows "session (snd (run_command line st)) = Guest"
proof (cases "map_of commands (case split_whitespace line of c # _ \<Rightarrow> c | [] \<Rightarrow> [])")
  case (Some f)
  from map_of_SomeD [OF this] show ?thesis
    using Some assms commands_session by (cases "split_whitespace line") (auto simp: run_command_def Let_def)
qed (use assms in \<open>simp add: run_command_def Let_def\<close>)

section \<open>Properties\<close>

text \<open>C19: a guest can destroy nothing. Whatever line a guest session evaluates, no task is
  killed or marked and every file that existed still exists; the session stays a guest one unless
  the line starts with the word \<^verbatim>\<open>login\<close> or \<^verbatim>\<open>su\<close>.\<close>

theorem guest_cannot_destroy:
  assumes "session st = Guest"
  defines "st' \<equiv> snd (evaluate_command st)"
  shows "task_mgr st' = task_mgr st \<and> dom (fs_view (files st)) \<subseteq> dom (fs_view (files st')) \<and>
     (session st' = Guest \<or> hd (split_whitespace (trim (input_buffer st))) \<in> {''login'', ''su''})"
proof (cases "trim (input_buffer st) = []")
  case False
  define st1 where "st1 = st\<lparr>input_buffer := [], history := history_record (trim (input_buffer st)) (history st)\<rparr>"
  have "st' = snd (run_command (trim (input_buffer st)) st1)"
    using False by (simp add: st'_def evaluate_command_def Let_def st1_def split_beta)
  moreover have "session st1 = Guest" "task_mgr st1 = task_mgr st" "files st1 = files st"
    using assms(1) by (simp_all add: st1_def)
  ultimately show ?thesis
    using effect_guest [OF run_command_effect, of st1 "trim (input_buffer st)"]
      run_command_session [of st1 "trim (input_buffer st)"]
    unfolding dom_fs_view by metis
qed (use assms in \<open>simp add: evaluate_command_def Let_def\<close>)

text \<open>The time of day the shell prints is the exact decomposition of the elapsed milliseconds.\<close>

lemma seconds_split: "(d div 3600 * 60 + d mod 3600 div 60) * 60 + d mod 60 = d" for d :: nat
proof -
  have "(d div 3600 * 60 + d mod 3600 div 60) * 60 + d mod 60 =
      d div 3600 * 3600 + (d mod 3600 div 60 * 60 + d mod 3600 mod 60)"
    using mod_mod_cancel [of 60 3600 d] by (simp add: add_mult_distrib)
  also have "\<dots> = d" unfolding div_mult_mod_eq ..
  finally show ?thesis .
qed

lemma duration_exact:
  assumes "format_duration_from_ticks n = (h, m, s, ms)"
  shows "((unat h * 60 + unat m) * 60 + unat s) * 1000 + unat ms = unat (ticks_to_millis n)"
    and "unat m < 60" "unat s < 60" "unat ms < 1000"
proof -
  define t where "t = unat (ticks_to_millis n)"
  have e: "unat h = t div 1000 div 3600" "unat m = t div 1000 mod 3600 div 60" "unat s = t div 1000 mod 60"
    "unat ms = t mod 1000"
    using assms by (auto simp: format_duration_from_ticks_def Let_def unat_div unat_mod t_def)
  show "((unat h * 60 + unat m) * 60 + unat s) * 1000 + unat ms = unat (ticks_to_millis n)"
    unfolding e seconds_split div_mult_mod_eq t_def ..
  show "unat m < 60" "unat s < 60" "unat ms < 1000" unfolding e by (simp_all add: div_less_iff_less_mult)
qed

lemma tenths:
  assumes "r < 1024"
  shows "(q * 1024 + r) * 10 div 1024 mod 10 = r * 10 div (1024 :: nat)"
proof -
  have "(q * 1024 + r) * 10 = r * 10 + q * 10 * 1024" by simp
  then have "(q * 1024 + r) * 10 div 1024 = q * 10 + r * 10 div 1024" by (simp only: div_mult_self1)
  moreover have "r * 10 div 1024 < 10" using assms by (simp add: div_less_iff_less_mult)
  ultimately show ?thesis by simp
qed

text \<open>The size \<^verbatim>\<open>meminfo\<close> and \<^verbatim>\<open>ls\<close> print. Below one mebibyte the digit behind the
  point is the number of tenths of a kibibyte; from one mebibyte on it is not the number of
  tenths: it counts units of ten kibibytes, so that one mebibyte and 50 KiB is printed as
  \<^verbatim>\<open>~1.5 MB\<close> and one byte less than two mebibytes as \<^verbatim>\<open>~1.102 MB\<close>.\<close>

lemma format_bytes_digits:
  "(n < 1024 \<or> 1024 * 1024 \<le> n \<or>
     format_bytes n = ''~'' @ show_nat (n div 1024) @ ''.'' @ show_nat (n * 10 div 1024 mod 10) @ '' KB'') \<and>
   format_bytes (1024 * 1024 + 50 * 1024) = ''~1.5 MB'' \<and>
   format_bytes (2 * 1024 * 1024 - 1) = ''~1.102 MB''"
proof -
  have "n * 10 div 1024 mod 10 = n mod 1024 * 10 div 1024"
    using tenths [of "n mod 1024" "n div 1024"] unfolding div_mult_mod_eq by simp
  moreover have "show_nat 1 = ''1''" "show_nat 5 = ''5''" "show_nat 102 = ''102''"
    by code_simp+
  ultimately show ?thesis by (simp add: format_bytes_def Let_def)
qed

text \<open>The help text and the dispatcher agree: the listed commands are exactly those dispatched.\<close>

lemma help_lists_commands:
  "set (map (\<lambda>l. hd (split_whitespace l)) (tl help_lines)) = set (map fst commands)"
  by code_simp

section \<open>Writing and reading a file\<close>

lemma valid_name_chars:
  assumes "is_valid_name name"
  shows "name \<noteq> []" "\<forall>c \<in> set name. \<not> is_whitespace c" "CHR '' '' \<notin> set name"
  using assms by (auto simp: is_valid_name_def list_all_iff name_byte_def Let_def is_whitespace_def)

lemma file_name_valid:
  assumes "fs_wf fs" "name \<in> dom (fs_view fs)"
  shows "is_valid_name name"
  using assms by (auto simp: fs_wf_def dom_fs_view list_all_iff)

lemma dispatch:
  "map_of commands ''write'' = Some command_write" "map_of commands ''cat'' = Some command_cat"
  by (simp_all add: commands_def)

lemma evaluate_line:
  assumes "trim line = line" "line \<noteq> []"
  shows "evaluate_command (st\<lparr>input_buffer := line\<rparr>) =
    (let (out, st') = run_command line (st\<lparr>input_buffer := [], history := history_record line (history st)\<rparr>)
     in (out @ [print_prompt st'], st'))"
  using assms by (simp add: evaluate_command_def Let_def)

lemma run_write:
  assumes "is_valid_name name" "s \<noteq> []" "\<not> is_whitespace (hd s)"
  shows "run_command (''write '' @ name @ '' '' @ s) st =
    (case write_file name s (files st) of
       (Inr _, fs) \<Rightarrow> ([println (''Written: '' @ name)], st\<lparr>files := fs\<rparr>)
     | (Inl err, fs) \<Rightarrow> ([println (''write: '' @ err)], st\<lparr>files := fs\<rparr>))"
proof -
  let ?l = "''write'' @ CHR '' '' # name @ CHR '' '' # s"
  note v = valid_name_chars [OF assms(1)]
  have "splitn_space (Suc (Suc (Suc 0))) ?l = [''write'', name, s]"
    unfolding splitn_words [of "''write''" "Suc 0" "name @ CHR '' '' # s", simplified]
    using splitn_words [OF v(3), of 0 s] splitn_words [of "''write''" "Suc 0" "name @ CHR '' '' # s"] by simp
  then have "splitn_space 3 ?l = [''write'', name, s]" by (simp add: numeral_3_eq_3)
  moreover have "split_whitespace ?l = ''write'' # split_whitespace (CHR '' '' # name @ CHR '' '' # s)"
    by (rule split_word_rest) (auto simp: is_whitespace_def)
  ultimately show ?thesis
    using v(1) trim_start_id [of s] assms(3) by (simp add: run_command_def Let_def dispatch command_write_def)
qed

lemma run_cat:
  assumes "is_valid_name name"
  shows "run_command (''cat '' @ name) st =
    (case read_file name (files st) of
       Inr content \<Rightarrow> ([println content], st) | Inl err \<Rightarrow> ([println (''cat: '' @ err)], st))"
proof -
  have "split_whitespace (''cat'' @ CHR '' '' # name) = [''cat'', name]"
    using valid_name_chars [OF assms] by (intro split_two_words) (auto simp: is_whitespace_def)
  then show ?thesis by (simp add: run_command_def dispatch command_cat_def second_word_def)
qed

text \<open>C27: what was written can be read back. If the file exists, the line
  \<^verbatim>\<open>write <file> <text>\<close> followed by the line \<^verbatim>\<open>cat <file>\<close> prints exactly the text, for
  every text of at most 2048 characters that neither starts nor ends with white space.\<close>

theorem write_then_cat:
  assumes "fs_wf (files st)" "name \<in> dom (fs_view (files st))"
    and "s \<noteq> []" "\<not> is_whitespace (hd s)" "\<not> is_whitespace (last s)" "length s \<le> MAX_FILE_SIZE"
  defines "st1 \<equiv> snd (evaluate_command (st\<lparr>input_buffer := ''write '' @ name @ '' '' @ s\<rparr>))"
  shows "fst (evaluate_command (st1\<lparr>input_buffer := ''cat '' @ name\<rparr>)) = [println s, print_prompt st1]"
proof -
  have valid: "is_valid_name name" using assms(1,2) by (rule file_name_valid)
  have t: "trim (''write '' @ name @ '' '' @ s) = ''write '' @ name @ '' '' @ s"
    using assms(3,5) by (intro trim_id) (auto simp: is_whitespace_def)
  have "\<not> is_whitespace (last name)" using valid_name_chars [OF valid] by simp
  then have t': "trim (''cat '' @ name) = ''cat '' @ name"
    using valid_name_chars(1) [OF valid] by (intro trim_id) (auto simp: is_whitespace_def)
  obtain fs where w: "write_file name s (files st) = (Inr (), fs)"
    using fs_write_view [OF assms(1), of name s] assms(2,6) by (cases "write_file name s (files st)")
      (auto simp: spec_write_def)
  then have "read_file name fs = Inr s" using fs.read_after_write [OF assms(1) w] by simp
  moreover have "files st1 = fs" unfolding st1_def using w
    by (subst evaluate_line [OF t]) (simp_all add: run_write [OF valid assms(3,4)] Let_def del: append.simps)
  moreover have "print_prompt (st1\<lparr>input_buffer := [], history := h\<rparr>) = print_prompt st1" for h
    by (simp add: print_prompt_def)
  ultimately show ?thesis
    by (subst evaluate_line [OF t']) (simp_all add: run_cat [OF valid] Let_def del: append.simps)
qed

section \<open>Witnesses\<close>

definition demo_shell :: shell_state where
  "demo_shell = (shell_statics (demo_tm Ready 1) (heap_stats_of 0))
     \<lparr>files := [\<lparr>file_name = ''notes'', contents = []\<rparr>]\<rparr>"

theorem guest_cannot_destroy_witness:
  "task_mgr (snd (evaluate_command (demo_shell\<lparr>session := Guest, input_buffer := ''rm notes''\<rparr>))) =
     demo_tm Ready 1"
  using guest_cannot_destroy [of "demo_shell\<lparr>session := Guest, input_buffer := ''rm notes''\<rparr>"]
  by (simp add: demo_shell_def shell_statics_def)

theorem write_then_cat_witness:
  "\<exists>st1. fst (evaluate_command (st1\<lparr>input_buffer := ''cat notes''\<rparr>)) = [println ''hello world'', print_prompt st1]"
proof -
  have "fs_wf (files demo_shell)" "''notes'' \<in> dom (fs_view (files demo_shell))"
    by (simp_all add: demo_shell_def fs_wf_def MAX_FILES_def is_valid_name_def MAX_FILE_NAME_LEN_def name_byte_def)
  from write_then_cat [OF this, of "''hello world''"] show ?thesis
    by (auto simp: is_whitespace_def MAX_FILE_SIZE_def)
qed

end
