(* ===== verification/Shell.thy ===== *)
theory Shell
  imports Shell_Commands Interrupts
begin

text \<open>
  The interactive part of \<^verbatim>\<open>src/src/shell.rs\<close>: the input line, the history keys and the loop
  that the background thread runs on the scancodes the keyboard interrupt queued. The loop comes alone and on
  the heap that its strings and vectors allocate from.
\<close>

definition MAX_INPUT_LEN :: nat where "MAX_INPUT_LEN = 256"

definition shell_start :: "shell_state \<Rightarrow> console_op list" where
  "shell_start st =
     [println (''ENOS shell ready. Type '' @ [CHR 0x60] @ ''help'' @ [CHR 0x60] @ '' for commands.''),
      print_prompt st]"

definition clear_visible_input :: "nat \<Rightarrow> console_op list" where
  "clear_visible_input count = replicate count (Screen [CHR 0x08])"

fun fill_buffer :: "string \<Rightarrow> string \<Rightarrow> string" where
  "fill_buffer buffer [] = buffer"
| "fill_buffer buffer (ch # s) =
     (if length buffer \<ge> MAX_INPUT_LEN then buffer else fill_buffer (buffer @ [ch]) s)"

definition replace_input_line :: "string \<Rightarrow> shell_op" where
  "replace_input_line s st =
     (let erased = clear_visible_input (length (input_buffer st));
          rendered = fill_buffer [] s
      in (erased @ [Screen rendered], st\<lparr>input_buffer := rendered\<rparr>))"

definition history_up :: "shell_state \<Rightarrow> (console_op list \<times> shell_state) run" where
  "history_up st =
     rbind (history_previous (input_buffer st) (history st)) (\<lambda>(previous, h).
       let st = st\<lparr>history := h\<rparr> in
       Ret (case previous of Some entry \<Rightarrow> replace_input_line entry st | None \<Rightarrow> ([], st)))"

definition history_down :: "shell_state \<Rightarrow> (console_op list \<times> shell_state) run" where
  "history_down st =
     rbind (history_next (history st)) (\<lambda>(next_line, h).
       let st = st\<lparr>history := h\<rparr> in
       Ret (case next_line of Some entry \<Rightarrow> replace_input_line entry st | None \<Rightarrow> ([], st)))"

definition push_char :: "char \<Rightarrow> shell_op" where
  "push_char c st =
     (if c = CHR 0x08 then
        let st = st\<lparr>history := reset_navigation (history st)\<rparr> in
        if input_buffer st \<noteq> [] then ([Screen [c]], st\<lparr>input_buffer := butlast (input_buffer st)\<rparr>)
        else ([], st)
      else if c = newline then
        let (out, st') = evaluate_command st in (Screen [c] # out, st')
      else if length (input_buffer st) < MAX_INPUT_LEN then
        ([Screen [c]], st\<lparr>history := reset_navigation (history st), input_buffer := input_buffer st @ [c]\<rparr>)
      else ([], st))"

fun push_chars :: "string \<Rightarrow> shell_op" where
  "push_chars [] st = ([], st)"
| "push_chars (c # cs) st =
     (let (out, st) = push_char c st; (out', st) = push_chars cs st in (out @ out', st))"

fun do_action :: "input_action option \<Rightarrow> shell_state \<Rightarrow> (console_op list \<times> shell_state) run" where
  "do_action None st = Ret ([], st)"
| "do_action (Some Backspace) st = Ret (push_char (CHR 0x08) st)"
| "do_action (Some Enter) st = Ret (push_char newline st)"
| "do_action (Some Tab) st = Ret (push_chars (replicate 4 CHR '' '') st)"
| "do_action (Some HistoryUp) st = history_up st"
| "do_action (Some HistoryDown) st = history_down st"
| "do_action (Some (Char c)) st = Ret (push_char c st)"

definition process_scancode :: "u8 \<Rightarrow> shell_state \<Rightarrow> (console_op list \<times> shell_state) run" where
  "process_scancode scancode st =
     (case decode_scancode scancode (keyboard st) of (action, kb) \<Rightarrow>
        do_action action (st\<lparr>keyboard := kb\<rparr>))"

text \<open>The loop of \<^verbatim>\<open>poll_input\<close> with the number of scancodes it may still process.\<close>

fun poll_loop :: "nat \<Rightarrow> shell_state \<Rightarrow> (console_op list \<times> shell_state) run" where
  "poll_loop 0 st = Ret ([], st)"
| "poll_loop (Suc n) st =
     (case sq_pop (scancodes st) of
        (None, q) \<Rightarrow> Ret ([], st\<lparr>scancodes := q\<rparr>)
      | (Some scancode, q) \<Rightarrow>
          rbind (process_scancode scancode (st\<lparr>scancodes := q\<rparr>)) (\<lambda>(out, st).
          rbind (poll_loop n st) (\<lambda>(out', st). Ret (out @ out', st))))"

definition poll_input :: "shell_state \<Rightarrow> (console_op list \<times> shell_state) run" where
  "poll_input st = poll_loop SCANCODE_QUEUE_CAPACITY st"

text \<open>
  The same loop with the heap it runs on: \<open>heap_base\<close> is the address of the heap and the offset
  of the allocator goes along with the state. The strings and vectors that a scancode changes make
  the requests of a \<open>heap_use\<close>, those before a command reads the statistics of the heap and those
  after. \<open>use n\<close> is the one of the scancode processed with \<open>n\<close> more to come at most.
\<close>

type_synonym heap_use = "layout list \<times> layout list"

definition process_scancode_heap ::
    "usize \<Rightarrow> heap_use \<Rightarrow> u8 \<Rightarrow> shell_state \<times> usize \<Rightarrow> (console_op list \<times> shell_state \<times> usize) run" where
  "process_scancode_heap heap_base reqs scancode s =
     rbind (serve heap_base (fst reqs) (snd s)) (\<lambda>offset.
     rbind (process_scancode scancode ((fst s)\<lparr>heap_view := heap_stats_of offset\<rparr>)) (\<lambda>(out, st).
     rbind (serve heap_base (snd reqs) offset) (\<lambda>offset. Ret (out, st, offset))))"

fun poll_loop_heap ::
    "usize \<Rightarrow> (nat \<Rightarrow> heap_use) \<Rightarrow> nat \<Rightarrow> shell_state \<times> usize \<Rightarrow> (console_op list \<times> shell_state \<times> usize) run" where
  "poll_loop_heap heap_base use 0 s = Ret ([], s)"
| "poll_loop_heap heap_base use (Suc n) s =
     (case sq_pop (scancodes (fst s)) of
        (None, q) \<Rightarrow> Ret ([], (fst s)\<lparr>scancodes := q\<rparr>, snd s)
      | (Some scancode, q) \<Rightarrow>
          rbind (process_scancode_heap heap_base (use n) scancode ((fst s)\<lparr>scancodes := q\<rparr>, snd s)) (\<lambda>(out, s).
          rbind (poll_loop_heap heap_base use n s) (\<lambda>(out', s). Ret (out @ out', s))))"

definition poll_input_heap ::
    "usize \<Rightarrow> (nat \<Rightarrow> heap_use) \<Rightarrow> shell_state \<times> usize \<Rightarrow> (console_op list \<times> shell_state \<times> usize) run" where
  "poll_input_heap heap_base use s = poll_loop_heap heap_base use SCANCODE_QUEUE_CAPACITY s"

text \<open>One iteration of the background thread's loop, apart from the final halt.\<close>

definition background_step ::
    "usize \<Rightarrow> (nat \<Rightarrow> heap_use) \<Rightarrow> (shell_state \<times> usize) \<times> u32 \<Rightarrow>
     (console_op list \<times> (shell_state \<times> usize) \<times> u32) run" where
  "background_step heap_base use s =
     rbind (poll_input_heap heap_base use (fst s)) (\<lambda>(out, st).
       let heartbeat = snd s + 1;
           log = (if heartbeat mod 400 = 0 then [serial_println ''RING 0: Background Thread Alive!''] else [])
       in Ret (out @ log, st, heartbeat))"

section \<open>Invariant\<close>

text \<open>
  The input line and everything that can become one, the history and the draft, are printable
  text of at most 256 characters; the components are well-formed.
\<close>

definition line_ok :: "string \<Rightarrow> bool" where
  "line_ok s \<longleftrightarrow> length s \<le> MAX_INPUT_LEN \<and> list_all printable s"

definition shell_inv :: "shell_state \<Rightarrow> bool" where
  "shell_inv st \<longleftrightarrow>
     line_ok (input_buffer st) \<and> history_wf (history st) \<and> list_all line_ok (entries (history st)) \<and>
     line_ok (draft (history st)) \<and> sq_wf (scancodes st) \<and> fs_wf (files st) \<and> sched_inv (task_mgr st)"

lemma fill_buffer_take: "fill_buffer b s = b @ take (MAX_INPUT_LEN - length b) s"
proof (induction s arbitrary: b)
  case (Cons c s)
  show ?case
  proof (cases "length b < MAX_INPUT_LEN")
    case True
    then have "MAX_INPUT_LEN - length b = Suc (MAX_INPUT_LEN - Suc (length b))" by simp
    with Cons True show ?thesis by simp
  qed simp
qed simp

lemma line_ok_simps [simp]: "line_ok []"
  by (simp add: line_ok_def)

lemma line_ok_fill: "list_all printable s \<Longrightarrow> line_ok (fill_buffer [] s)"
  by (auto simp: line_ok_def fill_buffer_take list_all_iff dest: in_set_takeD)

lemma line_ok_butlast: "line_ok s \<Longrightarrow> line_ok (butlast s)"
  by (auto simp: line_ok_def list_all_iff dest: in_set_butlastD)

lemma line_ok_trim: "line_ok s \<Longrightarrow> line_ok (trim s)"
  using set_trim [of s] length_trim [of s] by (auto simp: line_ok_def list_all_iff)

lemma recorded_lines: "set (entries (history_record c h)) \<subseteq> insert c (set (entries h))"
  by (cases "entries h") (auto simp: history_record_def Let_def)

lemma record_draft [simp]: "draft (history_record c h) = []" "draft (reset_navigation h) = []"
  by (simp_all add: history_record_def reset_navigation_def Let_def)

lemma evaluate_inv:
  assumes "shell_inv st"
  shows "shell_inv (snd (evaluate_command st))"
proof (cases "trim (input_buffer st) = []")
  case True
  then show ?thesis
    using assms by (auto simp: evaluate_command_def shell_inv_def Let_def)
next
  case False
  define st1 where "st1 = st\<lparr>input_buffer := [], history := history_record (trim (input_buffer st)) (history st)\<rparr>"
  have "list_all line_ok (entries (history st1))"
    using assms recorded_lines [of "trim (input_buffer st)" "history st"]
    by (auto simp: st1_def shell_inv_def list_all_iff line_ok_trim)
  then have "shell_inv st1"
    using assms by (simp add: shell_inv_def st1_def history_wf_record)
  moreover have "snd (evaluate_command st) = snd (run_command (trim (input_buffer st)) st1)"
    using False by (simp add: evaluate_command_def Let_def st1_def split_beta)
  ultimately show ?thesis
    using effect_frame [OF run_command_effect [of st1 "trim (input_buffer st)"]]
      effect_inv [OF run_command_effect [of st1 "trim (input_buffer st)"]]
    by (simp add: shell_inv_def)
qed

lemma push_char_inv:
  assumes "shell_inv st" "printable c \<or> c = CHR 0x08 \<or> c = newline"
  shows "shell_inv (snd (push_char c st))"
proof (cases "c = newline")
  case True
  then show ?thesis using evaluate_inv [OF assms(1)] by (simp add: push_char_def split_beta)
next
  case False
  then show ?thesis
    using assms by (auto simp: push_char_def shell_inv_def Let_def line_ok_butlast) (auto simp: line_ok_def)
qed

lemma push_chars_inv: "shell_inv st \<Longrightarrow> list_all printable cs \<Longrightarrow> shell_inv (snd (push_chars cs st))"
  by (induction cs arbitrary: st) (simp_all add: split_beta push_char_inv)

lemma replace_line_inv:
  "shell_inv st \<Longrightarrow> list_all printable s \<Longrightarrow> shell_inv (snd (replace_input_line s st))"
  by (simp add: shell_inv_def replace_input_line_def Let_def line_ok_fill)

lemma previous_draft:
  "history_previous line h = Ret (e, h') \<Longrightarrow> draft h' = draft h \<or> draft h' = line"
  by (auto simp: history_previous_def Let_def rbind_eq_Inr_iff split: if_splits option.splits nat.splits)

lemma next_draft: "history_next h = Ret (e, h') \<Longrightarrow> draft h' = draft h"
  by (auto simp: history_next_def rbind_eq_Inr_iff split: if_splits option.splits)

lemma history_up_inv:
  assumes "shell_inv st"
  shows "\<exists>out st'. history_up st = Ret (out, st') \<and> shell_inv st'"
proof -
  have "history_wf (history st)" using assms by (simp add: shell_inv_def)
  from previous_wf [OF this, of "input_buffer st"] obtain e h where
    e: "history_previous (input_buffer st) (history st) = Ret (e, h)" "history_wf h"
      "entries h = entries (history st)" "\<forall>s. e = Some s \<longrightarrow> s \<in> set (entries (history st))" by blast
  then have "shell_inv (st\<lparr>history := h\<rparr>)"
    using assms previous_draft [OF e(1)] by (auto simp: shell_inv_def)
  moreover have "\<forall>s. e = Some s \<longrightarrow> list_all printable s"
    using assms e(4) by (auto simp: shell_inv_def list_all_iff line_ok_def)
  ultimately show ?thesis
    using e(1) replace_line_inv [of "st\<lparr>history := h\<rparr>"]
    by (cases e) (auto simp: history_up_def Let_def, metis prod.collapse)
qed

lemma history_down_inv:
  assumes "shell_inv st"
  shows "\<exists>out st'. history_down st = Ret (out, st') \<and> shell_inv st'"
proof -
  have "history_wf (history st)" using assms by (simp add: shell_inv_def)
  from next_wf [OF this] obtain e h where
    e: "history_next (history st) = Ret (e, h)" "history_wf h" "entries h = entries (history st)"
      "\<forall>s. e = Some s \<longrightarrow> s \<in> set (entries (history st)) \<or> s = draft (history st)" by blast
  then have "shell_inv (st\<lparr>history := h\<rparr>)"
    using assms next_draft [OF e(1)] by (auto simp: shell_inv_def)
  moreover have "\<forall>s. e = Some s \<longrightarrow> list_all printable s"
    using assms e(4) by (auto simp: shell_inv_def list_all_iff line_ok_def)
  ultimately show ?thesis
    using e(1) replace_line_inv [of "st\<lparr>history := h\<rparr>"]
    by (cases e) (auto simp: history_down_def Let_def, metis prod.collapse)
qed

lemma decode_printable: "decode_scancode sc kb = (Some (Char c), kb') \<Longrightarrow> printable c"
  by (auto simp: decode_scancode_def Let_def split: if_splits dest: map_key_printable)

lemma returned_pair: "P (snd x) \<Longrightarrow> \<exists>out st. Ret x = Ret (out, st) \<and> P st"
  by (cases x) simp

lemma do_action_inv:
  assumes "shell_inv st" "\<And>c. act = Some (Char c) \<Longrightarrow> printable c"
  shows "\<exists>out st'. do_action act st = Ret (out, st') \<and> shell_inv st'"
proof (cases act)
  case (Some a)
  show ?thesis
  proof (cases a)
    case Backspace
    show ?thesis unfolding Some Backspace do_action.simps
      by (rule returned_pair [of shell_inv, OF push_char_inv [OF assms(1)]]) simp
  next
    case Enter
    show ?thesis unfolding Some Enter do_action.simps
      by (rule returned_pair [of shell_inv, OF push_char_inv [OF assms(1)]]) simp
  next
    case Tab
    have "list_all printable (replicate 4 CHR '' '')" by (simp add: printable_def list_all_iff)
    then show ?thesis unfolding Some Tab do_action.simps
      by (rule returned_pair [of shell_inv, OF push_chars_inv [OF assms(1)]])
  next
    case (Char c)
    then have "printable c" using Some assms(2) by simp
    then show ?thesis unfolding Some Char do_action.simps
      by (intro returned_pair [of shell_inv, OF push_char_inv [OF assms(1)]] disjI1)
  qed (use Some assms(1) history_up_inv history_down_inv in simp_all)
qed (use assms(1) in simp)

lemma process_scancode_inv:
  assumes "shell_inv st"
  shows "\<exists>out st'. process_scancode sc st = Ret (out, st') \<and> shell_inv st'"
proof -
  obtain act kb where d: "decode_scancode sc (keyboard st) = (act, kb)" by (cases "decode_scancode sc (keyboard st)")
  have "shell_inv (st\<lparr>keyboard := kb\<rparr>)" using assms by (simp add: shell_inv_def)
  moreover have "printable c" if "act = Some (Char c)" for c using decode_printable d that by simp
  ultimately show ?thesis using do_action_inv [of "st\<lparr>keyboard := kb\<rparr>" act] d by (simp add: process_scancode_def)
qed

lemma pop_inv:
  assumes "shell_inv st" "sq_pop (scancodes st) = (x, q)"
  shows "shell_inv (st\<lparr>scancodes := q\<rparr>)"
  using assms scq.wf_pop [of "scancodes st"] by (simp add: shell_inv_def)

lemma poll_loop_inv: "shell_inv st \<Longrightarrow> \<exists>out st'. poll_loop n st = Ret (out, st') \<and> shell_inv st'"
proof (induction n arbitrary: st)
  case (Suc n)
  obtain x q where p: "sq_pop (scancodes st) = (x, q)" by (cases "sq_pop (scancodes st)")
  note inv = pop_inv [OF Suc.prems p]
  show ?case
  proof (cases x)
    case (Some sc)
    obtain out st1 where s: "process_scancode sc (st\<lparr>scancodes := q\<rparr>) = Ret (out, st1)" "shell_inv st1"
      using process_scancode_inv [OF inv] by blast
    obtain out' st2 where "poll_loop n st1 = Ret (out', st2)" "shell_inv st2"
      using Suc.IH [OF s(2)] by blast
    with s(1) p Some show ?thesis by simp
  qed (use inv p in simp)
qed simp

section \<open>The heap\<close>

definition use_ok :: "heap_use \<Rightarrow> bool" where
  "use_ok reqs \<longleftrightarrow> list_all layout_ok (fst reqs) \<and> list_all layout_ok (snd reqs)"

text \<open>The most that the next \<open>n\<close> scancodes can take.\<close>

definition use_demand :: "(nat \<Rightarrow> heap_use) \<Rightarrow> nat \<Rightarrow> nat" where
  "use_demand use n = (\<Sum>i < n. demand (fst (use i)) + demand (snd (use i)))"

text \<open>The outcome of code that runs on the heap: it returns in a good state and has used what it
  asked for, or it panics in the error handler because what it asked for may not fit.\<close>

definition heap_outcome :: "(shell_state \<Rightarrow> bool) \<Rightarrow> nat \<Rightarrow> usize \<Rightarrow> (console_op list \<times> shell_state \<times> usize) run \<Rightarrow> bool" where
  "heap_outcome good most offset r \<longleftrightarrow>
     (case r of
        Inl p \<Rightarrow> (\<exists>l. p = alloc_error_handler l) \<and> 2 ^ 20 < unat offset + most
      | Inr (out, st, offset') \<Rightarrow>
          good st \<and> heap_wf offset' \<and> unat offset \<le> unat offset' \<and> unat offset' \<le> unat offset + most)"

lemma process_scancode_heap_outcome:
  assumes "shell_inv st" "base_ok b" "heap_wf off" "use_ok reqs"
  shows "heap_outcome shell_inv (demand (fst reqs) + demand (snd reqs)) off (process_scancode_heap b reqs sc (st, off))"
proof (cases "serve b (fst reqs) off")
  case (Inl p)
  then show ?thesis
    using serve_cases [OF assms(2) _ assms(3), of "fst reqs"] assms(4)
    by (auto simp: heap_outcome_def process_scancode_heap_def use_ok_def)
next
  case (Inr off1)
  then have o1: "heap_wf off1" "unat off \<le> unat off1" "unat off1 \<le> unat off + demand (fst reqs)"
    using serve_cases [OF assms(2) _ assms(3), of "fst reqs"] assms(4) by (auto simp: use_ok_def)
  have "shell_inv (st\<lparr>heap_view := heap_stats_of off1\<rparr>)" using assms(1) by (simp add: shell_inv_def)
  then obtain out st' where "process_scancode sc (st\<lparr>heap_view := heap_stats_of off1\<rparr>) = Ret (out, st')"
    "shell_inv st'" using process_scancode_inv by blast
  then show ?thesis
    using Inr o1 serve_cases [OF assms(2) _ o1(1), of "snd reqs"] assms(4)
    by (auto simp: heap_outcome_def process_scancode_heap_def use_ok_def split: sum.splits)
qed

lemma poll_loop_heap_outcome:
  assumes "base_ok b" "\<And>i. use_ok (use i)"
  shows "shell_inv st \<Longrightarrow> heap_wf off \<Longrightarrow> heap_outcome shell_inv (use_demand use n) off (poll_loop_heap b use n (st, off))"
proof (induction n arbitrary: st off)
  case (Suc n)
  obtain x q where p: "sq_pop (scancodes st) = (x, q)" by (cases "sq_pop (scancodes st)")
  note inv = pop_inv [OF Suc.prems(1) p]
  have d: "use_demand use (Suc n) = use_demand use n + (demand (fst (use n)) + demand (snd (use n)))"
    by (simp add: use_demand_def)
  show ?case
  proof (cases x)
    case (Some sc)
    note r = process_scancode_heap_outcome [OF inv assms(1) Suc.prems(2) assms(2), of n sc]
    show ?thesis
    proof (cases "process_scancode_heap b (use n) sc (st\<lparr>scancodes := q\<rparr>, off)")
      case (Inl e)
      then show ?thesis using r p Some by (auto simp: heap_outcome_def d)
    next
      case (Inr y)
      obtain out st1 off1 where y: "y = (out, st1, off1)" by (cases y)
      have s1: "shell_inv st1" "heap_wf off1" "unat off \<le> unat off1"
        "unat off1 \<le> unat off + (demand (fst (use n)) + demand (snd (use n)))"
        using r Inr y by (auto simp: heap_outcome_def)
      from Suc.IH [OF s1(1,2)] show ?thesis
        using Inr y p Some s1(3,4) by (auto simp: heap_outcome_def d split: sum.splits)
    qed
  qed (use inv p Suc.prems(2) in \<open>simp add: heap_outcome_def\<close>)
qed (simp add: heap_outcome_def use_demand_def)

text \<open>Nothing but the allocator changes the statistics, so a polling without requests is the polling
  of the shell alone.\<close>

lemma evaluate_view: "heap_view (snd (evaluate_command st)) = heap_view st"
proof -
  have "heap_view (snd (run_command l st')) = heap_view st'" for l st'
    using effect_frame [OF run_command_effect [of st' l]] by simp
  then show ?thesis by (simp add: evaluate_command_def Let_def split_beta)
qed

lemma push_char_view: "heap_view (snd (push_char c st)) = heap_view st"
  by (simp add: push_char_def Let_def evaluate_view split_beta)

lemma push_chars_view: "heap_view (snd (push_chars cs st)) = heap_view st"
  by (induction cs arbitrary: st) (simp_all add: push_char_view split_beta)

lemma process_scancode_view:
  assumes "process_scancode sc st = Ret (out, st')"
  shows "heap_view st' = heap_view st"
proof -
  have "push_char c st1 = (out, st') \<Longrightarrow> heap_view st' = heap_view st1"
    "push_chars cs st1 = (out, st') \<Longrightarrow> heap_view st' = heap_view st1" for c cs st1
    using push_char_view [of c st1] push_chars_view [of cs st1] by simp_all
  then have "do_action act st1 = Ret (out, st') \<Longrightarrow> heap_view st' = heap_view st1" for act st1
    by (cases "(act, st1)" rule: do_action.cases)
      (auto simp: history_up_def history_down_def replace_input_line_def Let_def rbind_eq_Inr_iff split: option.splits)
  then show ?thesis using assms by (auto simp: process_scancode_def split: prod.splits)
qed

lemma poll_loop_without_requests:
  "heap_view st = heap_stats_of off \<Longrightarrow>
   poll_loop_heap b (\<lambda>_. ([], [])) n (st, off) = rbind (poll_loop n st) (\<lambda>(out, st'). Ret (out, st', off))"
proof (induction n arbitrary: st)
  case (Suc n)
  obtain x q where p: "sq_pop (scancodes st) = (x, q)" by (cases "sq_pop (scancodes st)")
  have v: "st\<lparr>scancodes := q, heap_view := heap_stats_of off\<rparr> = st\<lparr>scancodes := q\<rparr>" using Suc.prems by simp
  show ?case
  proof (cases x)
    case (Some sc)
    show ?thesis
    proof (cases "process_scancode sc (st\<lparr>scancodes := q\<rparr>)")
      case (Inr y)
      obtain out st1 where y: "y = (out, st1)" by (cases y)
      have "heap_view st1 = heap_stats_of off" using process_scancode_view Inr y Suc.prems by fastforce
      from Suc.IH [OF this] show ?thesis
        using Inr y p Some v by (cases "poll_loop n st1") (auto simp: process_scancode_heap_def)
    qed (use p Some v in \<open>simp add: process_scancode_heap_def\<close>)
  qed (use p in simp)
qed simp

section \<open>Properties\<close>

text \<open>C10: whatever is typed, the shell goes on until its heap is full. From a well-formed state a
  polling of the keyboard, whatever requests its strings and vectors make, either returns in a
  well-formed state again, where the input line and the history hold printable lines of at most
  256 characters, the file system, the scancode queue and the scheduler keep their invariants and
  the heap has lost at most what was asked for; or it panics with the out-of-memory message, which
  it does only if the requests, with the gaps for alignment, may not fit what the heap has left. No
  other panic is possible.\<close>

theorem poll_input_panics_only_out_of_memory:
  assumes "shell_inv st" and "base_ok heap_base" and "heap_wf offset" and "\<And>i. use_ok (use i)"
  shows "case poll_input_heap heap_base use (st, offset) of
      Inl p \<Rightarrow> (\<exists>l. p = alloc_error_handler l) \<and>
        2 ^ 20 < unat offset + use_demand use SCANCODE_QUEUE_CAPACITY
    | Inr (out, st', offset') \<Rightarrow>
        shell_inv st' \<and> heap_wf offset' \<and> unat offset \<le> unat offset' \<and>
        unat offset' \<le> unat offset + use_demand use SCANCODE_QUEUE_CAPACITY"
  using poll_loop_heap_outcome [OF assms(2,4,1,3), where n = SCANCODE_QUEUE_CAPACITY]
  by (simp add: heap_outcome_def poll_input_heap_def)

lemma demo_shell_inv: "shell_inv demo_shell"
proof -
  have "sched_inv (demo_tm Ready 1)" by (rule demo_inv) simp_all
  then show ?thesis
    by (simp add: shell_inv_def demo_shell_def shell_statics_def scq.wf_empty)
      (simp add: history_new_def fs_wf_def MAX_FILES_def is_valid_name_def MAX_FILE_NAME_LEN_def name_byte_def)
qed

text \<open>The arrow key in the queue and a history line to copy: a fresh heap has room for the copies, a
  full one has not.\<close>

definition arrow_shell :: shell_state where
  "arrow_shell = demo_shell\<lparr>history := (history demo_shell)\<lparr>entries := [''ls'']\<rparr>,
     scancodes := snd (sq_push (snd (sq_push (scancodes demo_shell) 0xE0)) 0x48)\<rparr>"

definition arrow_use :: "nat \<Rightarrow> heap_use" where
  "arrow_use n = (if n = 126 then ([\<lparr>lay_size = 2, lay_align = 1\<rparr>], [\<lparr>lay_size = 8, lay_align = 1\<rparr>]) else ([], []))"

lemma arrow_shell_inv: "shell_inv arrow_shell"
proof -
  have "sq_wf (scancodes arrow_shell)"
    by (simp add: arrow_shell_def demo_shell_def shell_statics_def scq.wf_push scq.wf_empty)
  then show ?thesis
    using demo_shell_inv
    by (simp add: shell_inv_def arrow_shell_def history_wf_def)
      (simp add: demo_shell_def shell_statics_def history_new_def MAX_HISTORY_ENTRIES_def line_ok_def MAX_INPUT_LEN_def printable_def)
qed

lemma arrow_use_facts: "use_ok (arrow_use i)" "use_demand arrow_use 128 = 12"
proof -
  show "use_ok (arrow_use i)" by (auto simp: use_ok_def arrow_use_def layout_ok_def intro: bexI [of _ 0])
  have "demand (fst (arrow_use i)) + demand (snd (arrow_use i)) = (if i = 126 then 12 else 0)" for i
    by (simp add: arrow_use_def)
  then show "use_demand arrow_use 128 = 12" by (simp add: use_demand_def)
qed

theorem poll_input_panics_only_out_of_memory_witness:
  "\<exists>out st' offset'. poll_input_heap 0x110000 arrow_use (arrow_shell, 0) = Ret (out, st', offset') \<and>
     shell_inv st' \<and> unat offset' \<le> 12"
proof -
  have b: "base_ok 0x110000" "heap_wf 0" by (simp_all add: base_ok_def heap_wf_def)
  have "use_demand arrow_use SCANCODE_QUEUE_CAPACITY = 12"
    using arrow_use_facts(2) by (simp add: SCANCODE_QUEUE_CAPACITY_def)
  then show ?thesis
    using poll_input_panics_only_out_of_memory [OF arrow_shell_inv b, of arrow_use] arrow_use_facts(1)
    by (auto split: sum.splits)
qed

text \<open>The panic is real: with the heap full, the arrow key is fatal.\<close>

lemma full_heap_panics:
  "poll_input_heap 0x110000 arrow_use (arrow_shell, HEAP_SIZE) =
     Panic (alloc_error_handler \<lparr>lay_size = 2, lay_align = 1\<rparr>)"
proof -
  define n :: nat where "n = 126"
  have c: "SCANCODE_QUEUE_CAPACITY = Suc (Suc n)" "arrow_use (Suc n) = ([], [])"
    "arrow_use n = ([\<lparr>lay_size = 2, lay_align = 1\<rparr>], [\<lparr>lay_size = 8, lay_align = 1\<rparr>])"
    by (simp_all add: SCANCODE_QUEUE_CAPACITY_def arrow_use_def n_def)
  obtain q1 q2 where q1: "sq_pop (scancodes arrow_shell) = (Some 0xE0, q1)" "sq_pop q1 = (Some 0x48, q2)"
    by (simp add: arrow_shell_def demo_shell_def shell_statics_def scancode_queue_new_def sq_push_def sq_pop_def
        SCANCODE_QUEUE_CAPACITY_def)
  have "process_scancode 0xE0 st = Ret ([], st\<lparr>keyboard := snd (decode_scancode 0xE0 (keyboard st))\<rparr>)" for st
    by (simp add: process_scancode_def decode_scancode_def)
  moreover have "serve 0x110000 [\<lparr>lay_size = 2, lay_align = 1\<rparr>] HEAP_SIZE =
      Panic (alloc_error_handler \<lparr>lay_size = 2, lay_align = 1\<rparr>)"
    by (simp add: heap_alloc_def HEAP_SIZE_def add_ov_def checked_add_def Let_def)
  ultimately show ?thesis
    using q1 by (simp add: poll_input_heap_def c process_scancode_heap_def)
qed

section \<open>From the keyboard to the command\<close>

fun keyboard_irqs :: "u8 list \<Rightarrow> scancode_queue \<Rightarrow> scancode_queue run" where
  "keyboard_irqs [] q = Ret q"
| "keyboard_irqs (sc # scs) q = rbind (keyboard_interrupt sc q) (\<lambda>(q, _). keyboard_irqs scs q)"

lemma keyboard_irqs_push: "keyboard_irqs scs q = Ret (push_all sq_push scs q)"
  by (induction scs arbitrary: q)
    (simp_all add: keyboard_interrupt_def enqueue_scancode_from_irq_def ack_keyboard)

lemma pop_next:
  assumes "sq_wf q" "sq_contents q = sc # rest"
  obtains q' where "sq_pop q = (Some sc, q')" "sq_wf q'" "sq_contents q' = rest"
  using that [of "snd (sq_pop q)"] assms scq.pop_result [OF assms(1)] scq.wf_pop [OF assms(1)]
    scq.contents_pop [OF assms(1)] by (cases "sq_pop q") simp

lemma pop_none:
  assumes "sq_wf q" "sq_contents q = []"
  obtains q' where "sq_pop q = (None, q')" "sq_contents q' = []"
  using that [of "snd (sq_pop q)"] assms scq.pop_result [OF assms(1)] scq.contents_pop [OF assms(1)]
  by (cases "sq_pop q") simp

text \<open>Text typed into the input line.\<close>

definition typed :: "string \<Rightarrow> shell_state \<Rightarrow> shell_state" where
  "typed s st =
     st\<lparr>input_buffer := input_buffer st @ s,
        history := (if s = [] then history st else reset_navigation (history st))\<rparr>"

lemma push_text:
  assumes "printable c" "length (input_buffer st) < MAX_INPUT_LEN"
  shows "push_char c st = ([Screen [c]], typed [c] st)"
proof -
  have "c \<noteq> CHR 0x08" "c \<noteq> newline" using assms(1) by (auto simp: printable_def)
  then show ?thesis using assms(2) by (simp add: push_char_def typed_def)
qed

lemma typed_Cons: "typed s (typed [c] st) = typed (c # s) st"
  by (simp add: typed_def reset_navigation_def)

lemma typed_fields [simp]:
  "keyboard (typed s st) = keyboard st" "scancodes (typed s st) = scancodes st"
  "input_buffer (typed s st) = input_buffer st @ s"
  by (simp_all add: typed_def)

lemma typed_commute:
  "typed s (st\<lparr>keyboard := kb, scancodes := q\<rparr>) = (typed s st)\<lparr>keyboard := kb, scancodes := q\<rparr>"
  by (simp add: typed_def)

lemma typed_Nil [simp]: "typed [] st = st"
  by (simp add: typed_def)

lemma decode_all_Char_cases:
  assumes "decode_all (sc # scs) kb = (map Char s, kb2)" "decode_scancode sc kb = (act, kb1)"
  obtains "act = None" "decode_all scs kb1 = (map Char s, kb2)"
  | c s' where "act = Some (Char c)" "s = c # s'" "decode_all scs kb1 = (map Char s', kb2)"
  using assms by (cases act; cases s) (auto split: prod.splits)

text \<open>Polling scancodes that decode to text appends the text to the input line and echoes it.\<close>

lemma poll_text:
  assumes "sq_wf (scancodes st)" "sq_contents (scancodes st) = scs @ rest"
    and "decode_all scs (keyboard st) = (map Char s, kb)" "list_all printable s"
    and "length (input_buffer st) + length s \<le> MAX_INPUT_LEN"
  shows "\<exists>q. sq_wf q \<and> sq_contents q = rest \<and>
     poll_loop (length scs + n) st =
       rbind (poll_loop n ((typed s st)\<lparr>keyboard := kb, scancodes := q\<rparr>)) (\<lambda>(out, st').
         Ret (map (\<lambda>c. Screen [c]) s @ out, st'))"
  using assms
proof (induction scs arbitrary: st s)
  case Nil
  moreover have "rbind m (\<lambda>(out, st'). Ret (out, st')) = m" for m :: "(console_op list \<times> shell_state) run"
    by (cases m) auto
  ultimately show ?case by (intro exI [of _ "scancodes st"]) auto
next
  case (Cons sc scs)
  obtain q where q: "sq_pop (scancodes st) = (Some sc, q)" "sq_wf q" "sq_contents q = scs @ rest"
    using pop_next [OF Cons.prems(1)] Cons.prems(2) by (metis append_Cons)
  obtain act kb1 where d: "decode_scancode sc (keyboard st) = (act, kb1)"
    by (cases "decode_scancode sc (keyboard st)")
  let ?st = "st\<lparr>keyboard := kb1, scancodes := q\<rparr>"
  have swap: "st\<lparr>scancodes := q, keyboard := kb1\<rparr> = ?st" by simp
  show ?case
  proof (rule decode_all_Char_cases [OF Cons.prems(3) d])
    assume a: "act = None" "decode_all scs kb1 = (map Char s, kb)"
    from Cons.IH [of ?st s] q a Cons.prems(4,5) show ?thesis
      by (auto simp: typed_commute process_scancode_def d swap rbind_assoc split_beta)
  next
    fix c s' assume a: "act = Some (Char c)" "s = c # s'" "decode_all scs kb1 = (map Char s', kb)"
    have "push_char c ?st = ([Screen [c]], typed [c] ?st)"
      using Cons.prems(4,5) a(2) by (intro push_text) auto
    with Cons.IH [of "typed [c] ?st" s'] q a Cons.prems(4,5) show ?thesis
      by (auto simp: typed_commute typed_Cons process_scancode_def d swap rbind_assoc split_beta)
  qed
qed

lemma evaluate_frame:
  "keyboard (snd (evaluate_command st)) = keyboard st" "scancodes (snd (evaluate_command st)) = scancodes st"
proof -
  have "keyboard (snd (run_command l st')) = keyboard st' \<and> scancodes (snd (run_command l st')) = scancodes st'"
    for l st' using effect_frame [OF run_command_effect [of st' l]] by simp
  then show "keyboard (snd (evaluate_command st)) = keyboard st"
    "scancodes (snd (evaluate_command st)) = scancodes st"
    by (simp_all add: evaluate_command_def Let_def split_beta)
qed

lemma decode_all_length: "length (fst (decode_all scs kb)) \<le> length scs"
proof (induction scs arbitrary: kb)
  case (Cons sc scs)
  obtain act kb1 where "decode_scancode sc kb = (act, kb1)" by (cases "decode_scancode sc kb")
  then show ?case using Cons.IH [of kb1] by (cases act) (auto split: prod.split)
qed simp

lemma keyboard_same: "keyboard st = kb \<Longrightarrow> st\<lparr>keyboard := kb\<rparr> = st"
  by auto

lemma enter_key:
  "\<not> extended_prefix kb \<Longrightarrow> decode_scancode 0x1C kb = (Some Enter, kb)"
  "\<not> extended_prefix kb \<Longrightarrow> decode_scancode 0x9C kb = (None, kb)"
  by (simp_all add: decode_scancode_def)

text \<open>Polling the make and break codes of the enter key, the last in the queue.\<close>

lemma poll_enter:
  assumes "sq_wf (scancodes st)" "sq_contents (scancodes st) = [0x1C, 0x9C]" "keyboard st = keyboard_init"
    and "3 \<le> n"
  shows "\<exists>q1 q2. sq_contents q2 = [] \<and> (let (out, st') = evaluate_command (st\<lparr>scancodes := q1\<rparr>) in
     poll_loop n st = Ret (Screen [newline] # out, st'\<lparr>scancodes := q2\<rparr>))"
proof -
  define m where "m = n - 3"
  have n: "n = Suc (Suc (Suc m))" using assms(4) by (simp add: m_def)
  obtain q1 where q1: "sq_pop (scancodes st) = (Some 0x1C, q1)" "sq_wf q1" "sq_contents q1 = [0x9C]"
    using pop_next [OF assms(1,2)] .
  obtain q2 where q2: "sq_pop q1 = (Some 0x9C, q2)" "sq_wf q2" "sq_contents q2 = []"
    using pop_next [OF q1(2,3)] .
  obtain q3 where q3: "sq_pop q2 = (None, q3)" "sq_contents q3 = []" using pop_none [OF q2(2,3)] .
  obtain out st' where e: "evaluate_command (st\<lparr>scancodes := q1\<rparr>) = (out, st')"
    by (cases "evaluate_command (st\<lparr>scancodes := q1\<rparr>)")
  have f: "keyboard st' = keyboard_init" "scancodes st' = q1"
    using evaluate_frame [of "st\<lparr>scancodes := q1\<rparr>"] e assms(3) by simp_all
  have kb: "st\<lparr>scancodes := q1, keyboard := keyboard_init\<rparr> = st\<lparr>scancodes := q1\<rparr>"
    "st'\<lparr>scancodes := q2, keyboard := keyboard_init\<rparr> = st'\<lparr>scancodes := q2\<rparr>"
    using assms(3) f(1) by (simp_all add: keyboard_same)
  have "\<not> extended_prefix keyboard_init" by (simp add: keyboard_init_def)
  note keys = enter_key [OF this]
  have "poll_loop n st = Ret (Screen [newline] # out, st'\<lparr>scancodes := q3\<rparr>)"
    by (simp add: n process_scancode_def keys push_char_def assms(3) q1(1) q2(1) q3(1) e f kb)
  then show ?thesis using e q3(2) by (intro exI [of _ q1] exI [of _ q3]) simp
qed

text \<open>C11: from the keyboard to the command. When the keyboard interrupts of a typed printable
  line and the enter key, fewer than 128 scancodes, arrive at an idle shell, the next polling echoes
  the line character by character and evaluates exactly this line, with the queue empty and the
  decoder at rest afterwards.\<close>

theorem typed_line_is_evaluated:
  assumes "keyboard st = keyboard_init" "input_buffer st = []"
    and "sq_wf (scancodes st)" "sq_contents (scancodes st) = []"
    and "list_all printable s" "s \<noteq> []"
    and "length (concat (map keystrokes s) @ [0x1C, 0x9C]) < SCANCODE_QUEUE_CAPACITY"
  shows "\<exists>q q1 q2. keyboard_irqs (concat (map keystrokes s) @ [0x1C, 0x9C]) (scancodes st) = Ret q \<and>
     sq_contents q2 = [] \<and>
     (let (out, st') = evaluate_command (st\<lparr>input_buffer := s, history := reset_navigation (history st),
                                            scancodes := q1\<rparr>)
      in poll_input (st\<lparr>scancodes := q\<rparr>) =
           Ret (map (\<lambda>c. Screen [c]) s @ Screen [newline] # out, st'\<lparr>scancodes := q2\<rparr>))"
proof -
  let ?k = "concat (map keystrokes s)" and ?c = SCANCODE_QUEUE_CAPACITY
  define q where "q = push_all sq_push (?k @ [0x1C, 0x9C]) (scancodes st)"
  have q: "sq_wf q" "sq_contents q = ?k @ [0x1C, 0x9C]"
    using scq.push_all_wf [OF assms(3)] scq.push_all_contents [OF assms(3)] assms(4,7) by (simp_all add: q_def)
  have len: "length s \<le> MAX_INPUT_LEN"
    using decode_all_length [of ?k keyboard_init] decode_typing [OF assms(5)] assms(7)
    by (simp add: SCANCODE_QUEUE_CAPACITY_def MAX_INPUT_LEN_def)
  let ?st = "st\<lparr>scancodes := q\<rparr>"
  obtain q0 where q0: "sq_wf q0" "sq_contents q0 = [0x1C, 0x9C]"
    "poll_loop (length ?k + (?c - length ?k)) ?st =
       rbind (poll_loop (?c - length ?k) ((typed s ?st)\<lparr>keyboard := keyboard_init, scancodes := q0\<rparr>)) (\<lambda>(out, st').
         Ret (map (\<lambda>c. Screen [c]) s @ out, st'))"
    using poll_text [of ?st ?k "[0x1C, 0x9C]" s keyboard_init "?c - length ?k"] q decode_typing [OF assms(5)]
      assms(1,2,5) len by auto
  let ?st1 = "(typed s ?st)\<lparr>keyboard := keyboard_init, scancodes := q0\<rparr>"
  have "3 \<le> ?c - length ?k" using assms(7) by simp
  moreover have "sq_wf (scancodes ?st1)" "sq_contents (scancodes ?st1) = [0x1C, 0x9C]" "keyboard ?st1 = keyboard_init"
    using q0(1,2) by simp_all
  ultimately obtain q1 q2 where e: "sq_contents q2 = []"
    "(let (out, st') = evaluate_command (?st1\<lparr>scancodes := q1\<rparr>) in
      poll_loop (?c - length ?k) ?st1 = Ret (Screen [newline] # out, st'\<lparr>scancodes := q2\<rparr>))" using poll_enter by blast
  moreover have "?st1\<lparr>scancodes := q1\<rparr> =
      st\<lparr>input_buffer := s, history := reset_navigation (history st), scancodes := q1\<rparr>"
    using assms(1,2,6) by (simp add: typed_def)
  moreover have "keyboard_irqs (?k @ [0x1C, 0x9C]) (scancodes st) = Ret q"
    by (simp add: keyboard_irqs_push q_def)
  moreover have "length ?k + (?c - length ?k) = ?c" using assms(7) by simp
  ultimately show ?thesis
    using q0(3) by (intro exI [of _ q] exI [of _ q1] exI [of _ q2]) (auto simp: poll_input_def split_beta Let_def)
qed

theorem typed_line_is_evaluated_witness:
  "\<exists>q q1 q2. keyboard_irqs (concat (map keystrokes ''ls'') @ [0x1C, 0x9C]) (scancodes demo_shell) = Ret q \<and>
     sq_contents q2 = [] \<and>
     (let (out, st') = evaluate_command (demo_shell\<lparr>input_buffer := ''ls'',
          history := reset_navigation (history demo_shell), scancodes := q1\<rparr>)
      in poll_input (demo_shell\<lparr>scancodes := q\<rparr>) =
           Ret (map (\<lambda>c. Screen [c]) ''ls'' @ Screen [newline] # out, st'\<lparr>scancodes := q2\<rparr>))"
proof (rule typed_line_is_evaluated)
  show "sq_wf (scancodes demo_shell)" "sq_contents (scancodes demo_shell) = []"
    by (simp_all add: demo_shell_def shell_statics_def scq.wf_empty scq.contents_empty)
  show "length (concat (map keystrokes ''ls'') @ [0x1C, 0x9C]) < SCANCODE_QUEUE_CAPACITY"
    by (simp add: keystrokes_def us_layout_def SCANCODE_QUEUE_CAPACITY_def)
qed (simp_all add: demo_shell_def shell_statics_def printable_def)

end
