(* ===== verification/Boot.thy ===== *)
theory Boot
  imports Phys_Memory User_Program Idt Shell
begin

text \<open>
  From the boot loader's jump to the first user instruction: the multiboot header, the entry
  code, \<^verbatim>\<open>kernel_main\<close> and the panic handlers of \<^verbatim>\<open>src/src/main.rs\<close>. What the
  machine and the allocator supply, the addresses of the structures, the kernel image, the memory
  the loader left, is the record \<open>boot_env\<close>; the state the kernel has built when it enters user
  mode is the record \<open>kernel\<close>.
\<close>

section \<open>The header\<close>

record multiboot_header =
  mh_magic :: u32
  mh_flags :: u32
  mh_checksum :: u32

definition MULTIBOOT_HEADER :: multiboot_header where
  "MULTIBOOT_HEADER =
     (let magic = 0x1BADB002; flags = 0
      in \<lparr>mh_magic = magic, mh_flags = flags, mh_checksum = 0 - magic - flags\<rparr>)"

text \<open>What a loader looks for: the magic number, and three words that add up to zero.\<close>

definition multiboot_accepts :: "multiboot_header \<Rightarrow> bool" where
  "multiboot_accepts h \<longleftrightarrow> mh_magic h = 0x1BADB002 \<and> mh_magic h + mh_flags h + mh_checksum h = 0"

section \<open>Panics\<close>

text \<open>The panic handler prints the message on both consoles and stops; \<open>info\<close> is the message the
  core library formats. The handler of a failed allocation is in \<open>Heap_Allocator\<close>.\<close>

definition panic_handler :: "string \<Rightarrow> console_op list" where
  "panic_handler info = [println info, serial_println info]"

section \<open>The entry code\<close>

text \<open>The entry code sets the stack and passes the loader's two registers on it; \<open>return\<close> is the
  address the call pushes. The arguments lie above it.\<close>

definition start :: "u32 \<Rightarrow> u32 \<Rightarrow> machine \<Rightarrow> machine" where
  "start kernel_stack_top return s =
     (let s1 = set_esp kernel_stack_top s
      in push return (push (r_eax (fst s1)) (push (r_ebx (fst s1)) s1)))"

definition call_arg :: "nat \<Rightarrow> machine \<Rightarrow> u32" where
  "call_arg n s = snd s (r_esp (fst s) + 4 * of_nat n)"

section \<open>The main function\<close>

record boot_env =
  multiboot_at :: "u32 \<Rightarrow> multiboot_info"
  map_entry_at :: "u32 \<Rightarrow> memory_map_entry"
  kernel_start :: u32
  kernel_end :: u32
  tss_addr :: u32
  gdt_addr :: u32
  page_table_0_addr :: u32
  page_table_1_addr :: u32
  page_directory_addr :: u32
  boot_cr0 :: u32
  idt_addr :: u32
  isr :: handlers
  interrupt_stack :: u32
  background_stack :: u32
  background_thread :: u32
  user_memory :: memory

record kernel =
  frames :: bump_allocator
  segments :: gdt_state
  space :: address_space
  ctrl3 :: u32
  ctrl0 :: u32
  gates :: "idt \<times> idt_ptr"
  devices :: "port_op list"
  scheduler :: task_manager
  user_image :: memory
  processor :: machine
  data_segments :: u16 \<comment> \<open>ds, es, fs and gs\<close>
  console :: "console_op list"

definition report_frame :: "u32 option \<Rightarrow> console_op" where
  "report_frame frame =
     (case frame of
        Some start_address \<Rightarrow>
          serial_println (''Kernel Boot: Allocator Ready. First frame at '' @ fmt_hex start_address @ ''.'')
      | None \<Rightarrow> serial_println ''Kernel Boot: Allocator Ready but no frame available.'')"

text \<open>The call that leaves the kernel: \<open>return\<close> is never used.\<close>

definition enter_user_mode :: "u32 \<Rightarrow> u32 \<Rightarrow> u32 \<Rightarrow> machine \<Rightarrow> machine \<times> u16" where
  "enter_user_mode return entry user_stack_top s =
     switch_to_user_mode (push return (push entry (push user_stack_top s)))"

definition kernel_main :: "boot_env \<Rightarrow> shell_state \<Rightarrow> u32 \<Rightarrow> u32 \<Rightarrow> machine \<Rightarrow> kernel run" where
  "kernel_main env sh magic info_addr s =
     (if magic \<noteq> 0x2BADB002
      then Panic (ExplicitPanic (''Invalid multiboot magic: '' @ fmt_hex magic))
      else
        let info = multiboot_at env info_addr; mem = map_entry_at env in
        rbind (print_memory_map mem info) (\<lambda>map_log.
        rbind (allocate_frame mem (kernel_start env) (kernel_end env) (bump_new info)) (\<lambda>(frame, alloc).
        let (g, gdt_log) = gdt_init (tss_addr env) (gdt_addr env);
            m = paging_init (page_table_0_addr env) (page_table_1_addr env) paging_static
        in
        rbind (init_idt (isr env) (code_selector g) (idt_addr env)) (\<lambda>(t, idt_log).
        let (pit_ports, pit_log) = pit_init_default in
        rbind (set_interrupt_stack (interrupt_stack env) g) (\<lambda>(g, stack_log).
        rbind (register_named_task ''background_thread'' (background_thread env) (background_stack env)
          (code_selector g) task_manager_new) (\<lambda>tm.
        rbind (install_user_program (user_memory env)) (\<lambda>(entry, um).
        let (cpu, data_sel) = enter_user_mode 0 entry USER_STACK_TOP s in
        Ret \<lparr>frames = alloc, segments = g, space = m, ctrl3 = page_directory_addr env,
             ctrl0 = enable_paging (boot_cr0 env), gates = t,
             devices = pics_initialize PICS @ pit_ports, scheduler = tm, user_image = um,
             processor = cpu, data_segments = data_sel,
             console = println ''Booting ENOS...'' # map_log @ report_frame frame # gdt_log @
               serial_println ''Kernel Boot: GDT & TSS Ready.'' #
               serial_println ''Kernel Boot: Paging Ready.'' # idt_log @ pit_log @ stack_log @
               serial_println ''Kernel Boot: Interrupts Ready.'' # shell_start sh @
               [serial_println ''Kernel Boot: Multitasking Ready. Initiating Ring 3 Jump...'',
                serial_println (''Kernel Boot: User program installed at '' @ fmt_hex entry @ ''.'')]\<rparr>)))))))"

text \<open>Power on to user mode: the loader enters with the magic number in \<^verbatim>\<open>eax\<close> and the
  address of its information in \<^verbatim>\<open>ebx\<close>.\<close>

definition boot :: "boot_env \<Rightarrow> shell_state \<Rightarrow> u32 \<Rightarrow> u32 \<Rightarrow> machine \<Rightarrow> kernel run" where
  "boot env sh kernel_stack_top return s =
     (let s1 = start kernel_stack_top return s
      in kernel_main env sh (call_arg 1 s1) (call_arg 2 s1) s1)"

section \<open>Each step\<close>

text \<open>What the loader and the machine must supply: a well-formed memory map, whose total the
  printed counter can hold, and two stacks inside the address space.\<close>

definition boot_ok :: "boot_env \<Rightarrow> multiboot_info \<Rightarrow> bool" where
  "boot_ok env info \<longleftrightarrow>
     has_memory_map info \<and> unat (kernel_end env) \<le> ram_limit \<and>
     map_ok (map_entry_at env) (unat (mmap_addr info)) (unat (mmap_length info)) 0 \<and>
     list_all below_4_tib (map_entries (map_entry_at env) info) \<and>
     unat (interrupt_stack env) + 8192 < 2 ^ 32 \<and> unat (background_stack env) + 8192 < 2 ^ 32"

lemma boot_eq: "boot env sh stk ret s = kernel_main env sh (r_eax (fst s)) (r_ebx (fst s)) (start stk ret s)"
  by (simp add: boot_def Let_def call_arg_def start_def push_def set_esp_def)

lemma first_frame_returns:
  assumes "boot_ok env info"
  obtains frame alloc where "allocate_frame (map_entry_at env) (kernel_start env) (kernel_end env) (bump_new info) =
    Ret (frame, alloc)" "alloc_wf (map_entry_at env) (kernel_end env) alloc"
proof -
  have "alloc_wf (map_entry_at env) (kernel_end env) (bump_new info)"
    using assms by (intro bump_new_wf) (simp_all add: boot_ok_def)
  from allocate_frame_call [OF this] that show thesis by (auto simp: frame_call_def)
qed

lemma background_registered:
  assumes "unat base + 8192 < 2 ^ 32"
  obtains tm t where "register_named_task name entry base cs task_manager_new = Ret tm" "tasks tm = [t]"
    "task_new 2 name Kernel entry base cs = Ret t" "current_task_idx tm = 0" "\<not> main_task_tracked tm"
proof -
  obtain t where "task_new 2 name Kernel entry base cs = Inr t"
    using task_new_frame [of base 2 name Kernel entry cs] assms by (auto simp: STACK_SIZE_def)
  then show thesis
    using that by (simp add: register_named_task_def task_manager_new_def add_ov_def)
qed

lemma interrupt_stack_set:
  assumes "unat stk + 8192 < 2 ^ 32" "tss_ptr g \<noteq> None"
  shows "\<exists>out. set_interrupt_stack stk g = Ret (g\<lparr>tss_mem := (tss_mem g)\<lparr>esp0 := stk + 8192\<rparr>\<rparr>, out)"
  using assms by (simp add: set_interrupt_stack_def add_ov_ok)

lemma entered:
  fixes ret entry stk :: u32 and s :: machine
  defines "c \<equiv> fst (fst (enter_user_mode ret entry stk s))"
  shows "snd (enter_user_mode ret entry stk s) = 0x23"
    and "r_eip c = entry" "r_esp c = stk" "r_cs c = 0x1B" "r_ss c = 0x23" "r_eflags c = 0x202"
  using switch_enters_ring3 [where s = "push ret (push entry (push stk s))"]
  by (simp_all add: c_def enter_user_mode_def push_def)

lemma gates_loaded:
  obtains t out where "init_idt h cs addr = Ret ((t, idt_load addr), out)"
    "\<And>v. v < 256 \<Longrightarrow> gate_view (t ! v) =
       map_option (\<lambda>p. (cs, p, if v = 0x80 then 3 else 0, True)) (handler_of h v)"
proof -
  obtain t where t: "build_idt h cs = Ret t" "length t = 256" "map gate_view t =
      map (\<lambda>v. map_option (\<lambda>p. (cs, p, if v = 0x80 then 3 else 0, True)) (handler_of h v)) [0..<256]"
    using idt_built [of h cs] by blast
  have "gate_view (t ! v) = map_option (\<lambda>p. (cs, p, if v = 0x80 then 3 else 0, True)) (handler_of h v)"
    if "v < 256" for v
    using arg_cong [OF t(3), of "\<lambda>xs. xs ! v"] t(2) that by simp
  with t(1) that show thesis by (simp add: init_idt_def)
qed

section \<open>The machine user mode finds\<close>

text \<open>
  The translation of addresses with the control registers as the kernel left them: none without
  the paging bit; with it, a walk from the directory the third control register points to, through
  the tables in memory. No tables are found anywhere but at the three addresses of the statics.
\<close>

definition live_translate :: "boot_env \<Rightarrow> kernel \<Rightarrow> bool \<Rightarrow> u32 \<Rightarrow> u32 option" where
  "live_translate env k user va =
     (if \<not> bit (ctrl0 k) 31 then Some va
      else if frame_of (ctrl3 k) \<noteq> page_directory_addr env then None
      else mmu_walk (tables_at (page_table_0_addr env) (page_table_1_addr env) (space k))
             (page_directory (space k)) user va)"

text \<open>The layout the linker gives: aligned tables, apart, and an image that ends below user space.\<close>

definition image_placed :: "boot_env \<Rightarrow> bool" where
  "image_placed env \<longleftrightarrow>
     (let tables = [page_directory_addr env, page_table_0_addr env, page_table_1_addr env] in
      list_all page_aligned tables \<and> distinct tables) \<and>
     kernel_end env \<le> USER_SPACE_START"

text \<open>The devices after the port writes of the boot: the interrupt controllers deliver the timer,
  the keyboard and the cascade at the vectors 32 to 34 and nothing else, and channel 0 of the
  interval timer divides its input by 11931, a rate of 100 Hz.\<close>

definition devices_ready :: "port_op list \<Rightarrow> bool" where
  "devices_ready ops \<longleftrightarrow>
     (\<forall>c. \<forall>irq < 16. irq_vector (fold pic_write ops c) irq = (if irq < 3 then Some (32 + irq) else None)) \<and>
     (\<exists>lo hi. filter (\<lambda>w. out_port w \<in> {0x40, 0x41, 0x42, 0x43}) ops = [Out 0x43 0x36, Out 0x40 lo, Out 0x40 hi] \<and>
        unat (ucast lo OR push_bit 8 (ucast hi) :: u16) = 11931)"

text \<open>The state in which user mode is entered.\<close>

definition handover :: "boot_env \<Rightarrow> kernel \<Rightarrow> bool" where
  "handover env k \<longleftrightarrow>
     (let c = fst (processor k); g = segments k in
      r_cs c = 0x1B \<and> r_ss c = 0x23 \<and> data_segments k = 0x23 \<and> r_eflags c = 0x202 \<and>
      r_eip c = USER_CODE_ADDR \<and> r_esp c = USER_STACK_TOP \<and>
      gdt_loaded (tss_addr env) (gdt_addr env) g \<and> task_register g = 0x28 \<and>
      ss0 (tss_mem g) = 0x10 \<and> esp0 (tss_mem g) = interrupt_stack env + 8192 \<and>
      bit (ctrl0 k) 31 \<and> ctrl3 k = page_directory_addr env \<and>
      space k = paging_init (page_table_0_addr env) (page_table_1_addr env) paging_static \<and>
      idt_limit (snd (gates k)) = 2047 \<and> idt_base (snd (gates k)) = idt_addr env \<and>
      (\<forall>v < 256. gate_view (fst (gates k) ! v) =
         map_option (\<lambda>p. (0x08, p, if v = 0x80 then 3 else 0, True)) (handler_of (isr env) v)) \<and>
      devices_ready (devices k) \<and>
      alloc_wf (map_entry_at env) (kernel_end env) (frames k) \<and>
      install_user_program (user_memory env) = Ret (USER_CODE_ADDR, user_image k) \<and>
      register_named_task ''background_thread'' (background_thread env) (background_stack env) 0x08
        task_manager_new = Ret (scheduler k))"

lemma boot_devices: "devices_ready (pics_initialize PICS @ fst pit_init_default)"
proof -
  obtain lo hi where pit: "fst pit_init_default = [Out 0x43 0x36, Out 0x40 lo, Out 0x40 hi]"
    "unat (ucast lo OR push_bit 8 (ucast hi) :: u16) = 11931"
    using pit_programmed [of DEFAULT_HZ] by (auto simp: pit_init_default_def)
  have "fold pic_write (fst pit_init_default) c = c" for c by (simp add: pit(1) pic_write_def)
  moreover have "filter (\<lambda>w. out_port w \<in> {0x40, 0x41, 0x42, 0x43}) (pics_initialize PICS) = []"
    by (simp add: pics_initialize_def iowait_def pic_ports)
  ultimately show ?thesis using pit pics_remapped by (simp add: devices_ready_def)
qed

lemma boot_hands_over:
  assumes "r_eax (fst s) = 0x2BADB002" "boot_ok env (multiboot_at env (r_ebx (fst s)))"
  shows "\<exists>k. boot env sh stk ret s = Ret k \<and> handover env k"
proof -
  let ?info = "multiboot_at env (r_ebx (fst s))" and ?g = "fst (gdt_init (tss_addr env) (gdt_addr env))"
  define g where "g = ?g\<lparr>tss_mem := (tss_mem ?g)\<lparr>esp0 := interrupt_stack env + 8192\<rparr>\<rparr>"
  have g: "gdt_loaded (tss_addr env) (gdt_addr env) g" "task_register g = 0x28" "ss0 (tss_mem g) = 0x10"
    "esp0 (tss_mem g) = interrupt_stack env + 8192" "code_selector g = 0x08"
    by (rule gdt_table_loaded [where stk = "interrupt_stack env + 8192"], simp_all add: g_def gdt_init_state)
      (simp add: tss_new_def)
  obtain map_log where map_log: "print_memory_map (map_entry_at env) ?info = Ret map_log"
    using print_map_ok [of ?info "map_entry_at env"] assms(2) by (auto simp: boot_ok_def)
  obtain frame alloc where alloc: "allocate_frame (map_entry_at env) (kernel_start env) (kernel_end env)
      (bump_new ?info) = Ret (frame, alloc)" "alloc_wf (map_entry_at env) (kernel_end env) alloc"
    by (rule first_frame_returns [OF assms(2)])
  obtain t idt_log where t: "init_idt (isr env) 0x08 (idt_addr env) = Ret ((t, idt_load (idt_addr env)), idt_log)"
    "\<And>v. v < 256 \<Longrightarrow> gate_view (t ! v) =
       map_option (\<lambda>p. (0x08, p, if v = 0x80 then 3 else 0, True)) (handler_of (isr env) v)"
    by (rule gates_loaded [of "isr env" "0x08" "idt_addr env"]) blast
  obtain stack_log where stack_log: "set_interrupt_stack (interrupt_stack env) ?g = Ret (g, stack_log)"
    using interrupt_stack_set [of "interrupt_stack env" ?g] assms(2)
    by (auto simp: boot_ok_def g_def gdt_init_state)
  have bg: "unat (background_stack env) + 8192 < 2 ^ 32" using assms(2) by (simp add: boot_ok_def)
  obtain tm where tm: "register_named_task ''background_thread'' (background_thread env) (background_stack env)
      0x08 task_manager_new = Ret tm"
    by (rule background_registered [OF bg, of "''background_thread''" "background_thread env" "0x08"])
  obtain um where um: "install_user_program (user_memory env) = Ret (USER_CODE_ADDR, um)"
    using installed by blast
  have "bit (enable_paging (boot_cr0 env)) 31" by (simp add: enable_paging_def bit_or_iff)
  then show ?thesis
    unfolding boot_eq kernel_main_def Let_def handover_def
    using assms(1) map_log alloc t g stack_log tm um boot_devices
    by (simp add: case_prod_unfold gdt_init_state(3) entered idt_load_def)
qed

lemma handover_translates:
  assumes "handover env k" "image_placed env"
  shows "live_translate env k user va =
     (if unat va < 0x800000 \<and> (user \<longrightarrow> 0x400000 \<le> unat va) then Some va else None)"
proof -
  have "frame_of (page_directory_addr env) = page_directory_addr env"
    using assms(2) by (simp add: image_placed_def Let_def page_aligned_def frame_of_def)
  moreover have "page_aligned (page_table_0_addr env)" "page_aligned (page_table_1_addr env)"
    "page_table_0_addr env \<noteq> page_table_1_addr env"
    using assms(2) by (simp_all add: image_placed_def Let_def)
  from translate_eq [OF this] have "mmu_walk (tables_at (page_table_0_addr env) (page_table_1_addr env) (space k))
      (page_directory (space k)) user va =
     (if unat va < 0x800000 \<and> (user \<longrightarrow> 0x400000 \<le> unat va) then Some va else None)"
    using assms(1) by (simp add: translate_def handover_def Let_def)
  ultimately show ?thesis using assms(1) by (simp add: live_translate_def handover_def Let_def)
qed

lemma handover_scheduler:
  assumes "handover env k" "unat (background_stack env) + 8192 < 2 ^ 32"
  obtains t where "tasks (scheduler k) = [t]"
    "task_new 2 ''background_thread'' Kernel (background_thread env) (background_stack env) 0x08 = Ret t"
    "current_task_idx (scheduler k) = 0" "\<not> main_task_tracked (scheduler k)" "sched_reachable (scheduler k)"
proof -
  have reg: "register_named_task ''background_thread'' (background_thread env) (background_stack env) 0x08
      task_manager_new = Ret (scheduler k)" using assms(1) by (simp add: handover_def Let_def)
  obtain tm t where "register_named_task ''background_thread'' (background_thread env) (background_stack env)
      0x08 task_manager_new = Ret tm" "tasks tm = [t]"
    "task_new 2 ''background_thread'' Kernel (background_thread env) (background_stack env) 0x08 = Ret t"
    "current_task_idx tm = 0" "\<not> main_task_tracked tm"
    by (rule background_registered [OF assms(2), of "''background_thread''" "background_thread env" "0x08"])
  with reg that sched_reachable.boot [OF reg] show thesis by simp
qed

section \<open>The first tick\<close>

lemma first_tick:
  assumes "tasks tm = [t]" "current_task_idx tm = 0" "\<not> main_task_tracked tm" "task_state t = Ready" "sched_inv tm"
  shows "schedule_next e tm = Ret (stack_ptr t, tm\<lparr>tick_count := tick_count tm + 1, main_task_tracked := True,
    tasks := [charge e (placeholder_main e), t], current_task_idx := 1\<rparr>)"
proof -
  have w: "wake_task n (placeholder_main e) = placeholder_main e" "wake_task n t = t" for n
    using assms(4) by (simp_all add: wake_task_def placeholder_main_def)
  have "settle e tm = tm\<lparr>tick_count := tick_count tm + 1, main_task_tracked := True,
      tasks := [charge e (placeholder_main e), t], current_task_idx := 0\<rparr>"
    using assms(1-3) w by (simp add: settle_def begin_tick_def ensure_main_task_tracked_def
        wake_sleeping_tasks_def Let_def) (simp add: placeholder_main_def)
  then show ?thesis
    using assms(4) by (simp add: schedule_next_eq [OF assms(5)] pick_next_def next_ready_after_def Let_def)
qed

text \<open>The frame a new task is resumed through, in the memory that holds its stack.\<close>

definition holds_frame :: "task \<Rightarrow> words \<Rightarrow> bool" where
  "holds_frame t m \<longleftrightarrow>
     (\<forall>i < 11. m (stack_ptr t + 4 * of_nat i) = load_le (task_stack t) (STACK_SIZE - 44 + 4 * i))"

definition thread_entry :: "u32 \<Rightarrow> u32 \<Rightarrow> cpu" where
  "thread_entry entry stk =
     \<lparr>r_eax = 0, r_ecx = 0, r_edx = 0, r_ebx = 0, r_esp = stk + of_nat STACK_SIZE, r_ebp = 0, r_esi = 0,
      r_edi = 0, r_eip = entry, r_cs = 0x08, r_eflags = 0x202, r_ss = 0x10\<rparr>"

lemma task_new_sp:
  assumes "task_new tid name priv entry base cs = Ret t" "unat base + 8192 < 2 ^ 32"
  shows "stack_ptr t = base + of_nat (STACK_SIZE - 44)"
  using task_new_frame [of base tid name priv entry cs] assms by (auto simp: STACK_SIZE_def)

lemma new_task_context:
  assumes "task_new tid name priv entry base 0x08 = Ret t" "unat base + 8192 < 2 ^ 32" "holds_frame t m"
  shows "context_at (stack_ptr t) m (thread_entry entry base)"
proof -
  obtain st where st: "t = \<lparr>task_id = tid, task_name = name, task_privilege = priv, task_state = Ready,
      task_stack = st, stack_ptr = base + of_nat (STACK_SIZE - 44), run_ticks = 0\<rparr>"
    "\<forall>i < 8. load_le st (STACK_SIZE - 44 + 4 * i) = 0" "load_le st (STACK_SIZE - 12) = entry"
    "load_le st (STACK_SIZE - 8) = 8" "load_le st (STACK_SIZE - 4) = 0x202"
    using task_new_frame [of base tid name priv entry "0x08"] assms(1,2) by (auto simp: STACK_SIZE_def)
  have w: "m (stack_ptr t + 4 * of_nat i) = load_le st (8148 + 4 * i)" if "i < 11" for i
    using assms(3) that st(1) by (simp add: holds_frame_def STACK_SIZE_def)
  have z: "load_le st (8148 + 4 * i) = 0" if "i < 8" for i using st(2) that by (simp add: STACK_SIZE_def)
  show ?thesis
    using w [of 0] w [of 1] w [of 2] w [of 4] w [of 5] w [of 6] w [of 7] w [of 8] w [of 9] w [of 10]
      z [of 0] z [of 1] z [of 2] z [of 4] z [of 5] z [of 6] z [of 7] st(1,3,4,5)
    by (simp add: context_at_def thread_entry_def user_selector_def STACK_SIZE_def)
qed

lemma delivery_above:
  assumes "user_selector (r_cs c)" "128 \<le> unat top0" "unat top0 \<le> unat a"
  shows "snd (push v (pushad (deliver_interrupt top0 h (c, m)))) a = m a"
proof -
  have "a \<noteq> top0 - of_nat j" if "0 < j" "j \<le> 128" for j
  proof -
    have "unat (of_nat j :: u32) = j" using that by (simp add: unat_of_nat)
    then have "unat (top0 - of_nat j) = unat top0 - j"
      using that assms(2) by (simp add: unat_sub word_le_nat_alt)
    then show ?thesis using that assms(2,3) by auto
  qed
  from this [of 4] this [of 8] this [of 12] this [of 16] this [of 20] this [of 24] this [of 28] this [of 32]
    this [of 36] this [of 40] this [of 44] this [of 48] this [of 52] this [of 56]
  show ?thesis using assms(1) by (simp add: pushad_def push_def deliver_interrupt_def Let_def)
qed

lemma frame_survives_delivery:
  fixes istk base :: u32
  assumes "user_selector (r_cs c)" "stack_ok (istk + 8192)" "unat istk + 8192 < 2 ^ 32"
    and "unat base + 8192 < 2 ^ 32" "stack_ptr t = base + of_nat (STACK_SIZE - 44)"
    and "unat base + 8192 \<le> unat istk \<or> unat istk + 8192 \<le> unat base"
    and "holds_frame t m" "holds_frame t (c_mem k)"
  shows "holds_frame t (snd (return_from_call 1 r k
    (push (saved_at (istk + 8192) c) (pushad (deliver_interrupt (istk + 8192) h (c, m))))))"
  unfolding holds_frame_def
proof (intro allI impI)
  fix i :: nat assume i: "i < 11"
  let ?a = "stack_ptr t + 4 * of_nat i" and ?s = "pushad (deliver_interrupt (istk + 8192) h (c, m))"
  have top: "unat (istk + 8192) = unat istk + 8192" using assms(3) by (simp add: unat_plus_noov)
  have sv: "unat (saved_at (istk + 8192) c) = unat istk + 8140"
    using assms(1,3) by (simp add: saved_at_def entry_stack_def unat_plus_noov)
  have "?a = base + of_nat (8148 + 4 * i)" by (simp add: assms(5) STACK_SIZE_def)
  moreover have "unat (of_nat (8148 + 4 * i) :: u32) = 8148 + 4 * i"
    unfolding unat_of_nat using i by simp
  ultimately have a: "unat ?a = unat base + (8148 + 4 * i)"
    using assms(4) i by (simp add: unat_plus_noov del: of_nat_add)
  have e: "r_esp (fst (push (saved_at (istk + 8192) c) ?s)) + 4 * of_nat 1 = saved_at (istk + 8192) c"
    by (simp add: pushad_saves(1))
  show "snd (return_from_call 1 r k (push (saved_at (istk + 8192) c) ?s)) ?a =
      load_le (task_stack t) (STACK_SIZE - 44 + 4 * i)"
  proof (cases "?a < saved_at (istk + 8192) c")
    case True
    then have "snd (return_from_call 1 r k (push (saved_at (istk + 8192) c) ?s)) ?a = c_mem k ?a"
      using e by (simp add: return_from_call_def)
    then show ?thesis using assms(8) i by (simp add: holds_frame_def)
  next
    case False
    then have "unat (istk + 8192) \<le> unat ?a" using a sv top i assms(6) by (auto simp: word_less_nat_alt)
    then have "snd (push (saved_at (istk + 8192) c) ?s) ?a = m ?a"
      using assms(1,2) by (intro delivery_above) (simp_all add: stack_ok_def)
    then show ?thesis using False e assms(7) i by (simp add: return_from_call_def holds_frame_def)
  qed
qed

section \<open>Properties\<close>

text \<open>A loader accepts the header, and a loader that is not one is refused before anything else.\<close>

lemma header_accepted: "multiboot_accepts MULTIBOOT_HEADER"
  by (simp add: multiboot_accepts_def MULTIBOOT_HEADER_def Let_def)

lemma other_loader_refused:
  "r_eax (fst s) \<noteq> 0x2BADB002 \<Longrightarrow> boot env sh kernel_stack_top return s =
     Panic (ExplicitPanic (''Invalid multiboot magic: '' @ fmt_hex (r_eax (fst s))))"
  by (simp add: boot_eq kernel_main_def)

text \<open>C1: the kernel boots. Entered by a multiboot loader with a well-formed memory map, with the
  image laid out below user space, it runs through every step without a panic and leaves a machine
  that can run: ring 3 selectors in all segment registers, interrupts on, the user program's first
  instruction and stack; a descriptor table with the segments those selectors name, and a task
  register whose segment sends interrupts to the kernel's stack; an interrupt table, in its
  register, whose gates lead to their handlers; interrupt controllers and interval timer
  programmed for 100 ticks a second at vector 32. Paging is on, with the directory in the control
  register, and the tables it finds map exactly the first eight megabytes to themselves and only
  the second half for user mode; so the kernel image is mapped and out of the program's reach,
  while its code, message and stack are within. The scheduler is in its initial reachable state
  with the background thread as the only task, and the program that runs makes its print call and
  then sleeps for ever.\<close>

theorem boot_reaches_user_mode:
  assumes "r_eax (fst s) = 0x2BADB002" and "boot_ok env (multiboot_at env (r_ebx (fst s)))"
    and "image_placed env"
  shows "\<exists>k. boot env sh kernel_stack_top return s = Ret k \<and> handover env k \<and>
     sched_reachable (scheduler k) \<and> map task_name (tasks (scheduler k)) = [''background_thread''] \<and>
     (\<forall>user va. live_translate env k user va =
        (if unat va < 0x800000 \<and> (user \<longrightarrow> 0x400000 \<le> unat va) then Some va else None)) \<and>
     (\<forall>va \<in> {kernel_start env..<kernel_end env}.
        live_translate env k False va = Some va \<and> live_translate env k True va = None) \<and>
     (\<forall>va \<in> {USER_CODE_ADDR, USER_MSG_ADDR, USER_STACK_TOP - 4}. live_translate env k True va = Some va) \<and>
     (\<forall>n res. user_calls (Suc n) (user_image k) res (fst (processor k)) =
        Some ((1, USER_MSG_ADDR, 50) # replicate n (3, 20, 50)))"
proof -
  obtain k where k: "boot env sh kernel_stack_top return s = Ret k" "handover env k"
    using boot_hands_over [OF assms(1,2)] by blast
  note h = k(2) [unfolded handover_def Let_def] and live = handover_translates [OF k(2) assms(3)]
  have "unat (background_stack env) + 8192 < 2 ^ 32" using assms(2) by (simp add: boot_ok_def)
  with k(2) obtain t where t: "tasks (scheduler k) = [t]"
    "task_new 2 ''background_thread'' Kernel (background_thread env) (background_stack env) 0x08 = Ret t"
    "sched_reachable (scheduler k)" by (rule handover_scheduler)
  have "user_image k = user_memory_after (user_memory env)" using h installed_program by simp
  then have "\<forall>n res. user_calls (Suc n) (user_image k) res (fst (processor k)) =
      Some ((1, USER_MSG_ADDR, 50) # replicate n (3, 20, 50))"
    using h by (simp only: program_calls) simp
  moreover have "\<forall>va \<in> {kernel_start env..<kernel_end env}.
      live_translate env k False va = Some va \<and> live_translate env k True va = None"
    using assms(3) by (auto simp: live image_placed_def USER_SPACE_START_def word_le_nat_alt word_less_nat_alt)
  moreover have "\<forall>va \<in> {USER_CODE_ADDR, USER_MSG_ADDR, USER_STACK_TOP - 4}. live_translate env k True va = Some va"
    by (simp add: live USER_CODE_ADDR_def USER_MSG_ADDR_def USER_SPACE_START_def USER_STACK_TOP_def
        USER_SPACE_END_def)
  ultimately show ?thesis
    using k t task_new_fields(2) [OF t(2)] live by auto
qed

text \<open>C8: the first timer interrupt starts the background thread. Whatever the user program was
  doing, the interrupt switches to a register state that is exactly the entry of the thread on its
  own stack, with interrupts enabled, and leaves a complete copy of the user registers at the
  address recorded for the user task. The thread's stack lies apart from the interrupt stack, and
  the handler's own calls leave it alone.\<close>

theorem first_tick_starts_background:
  assumes "r_eax (fst s) = 0x2BADB002" and "boot_ok env (multiboot_at env (r_ebx (fst s)))"
    and "boot env sh kernel_stack_top return s = Ret k"
    and "user_selector (r_cs c)" and "stack_ok (interrupt_stack env + 8192)"
    and "unat (background_stack env) + 8192 \<le> unat (interrupt_stack env) \<or>
         unat (interrupt_stack env) + 8192 \<le> unat (background_stack env)"
    and "holds_frame (tasks (scheduler k) ! 0) m" "holds_frame (tasks (scheduler k) ! 0) (c_mem clob)"
  shows "\<exists>m' tm'. timer_wrapper clob (deliver_interrupt (esp0 (tss_mem (segments k))) h (c, m)) (scheduler k) =
       Ret ((thread_entry (background_thread env) (background_stack env), m'), tm', [Out 0x20 0x20]) \<and>
     current_task_idx tm' = 1 \<and> map task_id (tasks tm') = [1, 2] \<and>
     context_at (stack_ptr (tasks tm' ! 0)) m' c"
proof -
  let ?top = "interrupt_stack env + 8192" and ?tm = "scheduler k"
  have "handover env k"
    using boot_hands_over [OF assms(1,2), of sh kernel_stack_top return] assms(3) by simp
  then have top: "esp0 (tss_mem (segments k)) = ?top" by (simp add: handover_def Let_def)
  have b: "unat (interrupt_stack env) + 8192 < 2 ^ 32" "unat (background_stack env) + 8192 < 2 ^ 32"
    using assms(2) by (simp_all add: boot_ok_def)
  obtain t where t: "tasks ?tm = [t]"
    "task_new 2 ''background_thread'' Kernel (background_thread env) (background_stack env) 0x08 = Ret t"
    "current_task_idx ?tm = 0" "\<not> main_task_tracked ?tm" "sched_reachable ?tm"
    using \<open>handover env k\<close> b(2) by (rule handover_scheduler)
  note sp = task_new_sp [OF t(2) b(2)]
  let ?e = "saved_at ?top c"
  let ?s = "return_from_call 1 (stack_ptr t) clob (push ?e (pushad (deliver_interrupt ?top h (c, m))))"
  have "holds_frame t (snd ?s)"
    using assms(7,8) t(1) by (intro frame_survives_delivery [OF assms(4,5) b sp assms(6)]) simp_all
  then have ctx: "context_at (stack_ptr t) (snd ?s) (thread_entry (background_thread env) (background_stack env))"
    by (rule new_task_context [OF t(2) b(2)])
  have "r_ss (fst ?s) = r_ss (thread_entry (background_thread env) (background_stack env))"
    using assms(4) pushad_registers(7) [of ?top h c m] by (simp add: return_from_call_def push_def thread_entry_def)
  from resume_context [OF ctx disjI2, OF this] have r: "resume (stack_ptr t) ?s =
      (thread_entry (background_thread env) (background_stack env), snd ?s)" .
  have saved: "context_at ?e (snd ?s) c"
    using assms(4,5) by (intro saved_after_call) (simp add: entry_stack_def)
  note tick = first_tick [OF t(1,3,4) task_new_fields(4) [OF t(2)] sched_reachable_inv [OF t(5)], of ?e]
  show ?thesis
    unfolding top timer_wrapper_eq [OF tick] r
    using saved task_new_fields(1) [OF t(2)] by (simp add: charge_def placeholder_main_def)
qed

section \<open>Witnesses\<close>

definition demo_env :: boot_env where
  "demo_env =
     \<lparr>multiboot_at = (\<lambda>_. demo_info), map_entry_at = (\<lambda>_. demo_entry 0x100000 0x700000),
      kernel_start = 0x100000, kernel_end = 0x250000, tss_addr = 0x210000, gdt_addr = 0x211000,
      page_table_0_addr = 0x201000, page_table_1_addr = 0x202000, page_directory_addr = 0x200000,
      boot_cr0 = 0x11, idt_addr = 0x212000,
      isr = \<lparr>default_exception_handler = 0x101000, default_exception_with_code_handler = 0x101100,
        breakpoint_handler = 0x101200, timer_interrupt_wrapper = 0x101300,
        keyboard_interrupt_handler = 0x101400, page_fault_wrapper = 0x101500,
        syscall_wrapper = 0x101600, gpf_handler = 0x101700, double_fault_handler = 0x101800\<rparr>,
      interrupt_stack = 0x220000, background_stack = 0x230000, background_thread = 0x102000,
      user_memory = (\<lambda>_. 0)\<rparr>"

definition loader_cpu :: cpu where
  "loader_cpu = demo_cpu\<lparr>r_eax := 0x2BADB002, r_ebx := 0x9500, r_cs := 0x08, r_ss := 0x10\<rparr>"

lemma demo_env_ok: "boot_ok demo_env (multiboot_at demo_env a)"
proof -
  have "has_memory_map demo_info" by (simp add: has_memory_map_def demo_info_def)
  moreover have "map_ok (\<lambda>_. demo_entry 0x100000 0x700000) (unat (mmap_addr demo_info))
      (unat (mmap_length demo_info)) 0"
    using demo_wf by (simp add: alloc_wf_def bump_new_def has_memory_map_def demo_info_def)
  moreover have "below_4_tib (demo_entry 0x100000 0x700000)"
    by (simp add: below_4_tib_def region_end_def demo_region saturating_add_unat)
  ultimately show ?thesis by (simp add: boot_ok_def demo_env_def ram_limit_def) (simp add: demo_info_def demo_walk)
qed

lemma loader_magic: "r_eax (fst (loader_cpu, m)) = 0x2BADB002"
  by (simp add: loader_cpu_def)

theorem boot_reaches_user_mode_witness:
  "\<exists>k. boot demo_env demo_shell 0x240000 0x100020 (loader_cpu, \<lambda>_. 0) = Ret k \<and> handover demo_env k \<and>
     live_translate demo_env k True 0x100000 = None \<and> live_translate demo_env k True 0x400000 = Some 0x400000"
proof -
  have "image_placed demo_env"
    by (simp add: image_placed_def Let_def demo_env_def page_aligned_def USER_SPACE_START_def)
  from boot_reaches_user_mode [OF loader_magic demo_env_ok this, of demo_shell "0x240000" "0x100020" "\<lambda>_. 0"]
  show ?thesis by (elim exE conjE) (intro exI conjI, assumption+, simp_all)
qed

lemma holds_own_frame:
  assumes "stack_ptr t = base + of_nat (STACK_SIZE - 44)"
  shows "holds_frame t (\<lambda>a. load_le (task_stack t) (unat (a - base)))"
proof -
  have "stack_ptr t + 4 * of_nat i - base = of_nat (8148 + 4 * i)" for i
    by (simp add: assms STACK_SIZE_def)
  moreover have "unat (of_nat (8148 + 4 * i) :: u32) = 8148 + 4 * i" if "i < 11" for i
    unfolding unat_of_nat using that by simp
  ultimately show ?thesis by (simp add: holds_frame_def STACK_SIZE_def del: of_nat_add)
qed

theorem first_tick_starts_background_witness:
  "\<exists>k (t :: task) m' tm'. boot demo_env demo_shell 0x240000 0x100020 (loader_cpu, \<lambda>_. 0) = Ret k \<and>
     timer_wrapper (demo_clobber\<lparr>c_mem := \<lambda>a. load_le (task_stack t) (unat (a - 0x230000))\<rparr>)
       (deliver_interrupt (esp0 (tss_mem (segments k))) 0x101300
         (demo_cpu, \<lambda>a. load_le (task_stack t) (unat (a - 0x230000)))) (scheduler k) =
       Ret ((thread_entry 0x102000 0x230000, m'), tm', [Out 0x20 0x20])"
proof -
  obtain k where k: "boot demo_env demo_shell 0x240000 0x100020 (loader_cpu, \<lambda>_. 0) = Ret k"
    "handover demo_env k"
    using boot_hands_over [OF loader_magic demo_env_ok] by blast
  have b: "unat (background_stack demo_env) + 8192 < 2 ^ 32" by (simp add: demo_env_def)
  obtain t where t: "tasks (scheduler k) = [t]" "task_new 2 ''background_thread'' Kernel
      (background_thread demo_env) (background_stack demo_env) 0x08 = Ret t"
    using k(2) b by (rule handover_scheduler)
  have "holds_frame t (\<lambda>a. load_le (task_stack t) (unat (a - 0x230000)))"
    using task_new_sp [OF t(2) b] by (intro holds_own_frame) (simp add: demo_env_def)
  then have hf: "holds_frame (tasks (scheduler k) ! 0) (\<lambda>a. load_le (task_stack t) (unat (a - 0x230000)))"
    "holds_frame (tasks (scheduler k) ! 0)
      (c_mem (demo_clobber\<lparr>c_mem := \<lambda>a. load_le (task_stack t) (unat (a - 0x230000))\<rparr>))"
    using t(1) by simp_all
  have "stack_ok (interrupt_stack demo_env + 8192)"
    "unat (background_stack demo_env) + 8192 \<le> unat (interrupt_stack demo_env) \<or>
     unat (interrupt_stack demo_env) + 8192 \<le> unat (background_stack demo_env)"
    by (simp_all add: demo_env_def stack_ok_def)
  from first_tick_starts_background [OF loader_magic demo_env_ok k(1) demo_cpu_ok(2) this hf, of "0x101300"]
  have "\<exists>m' tm'. timer_wrapper (demo_clobber\<lparr>c_mem := \<lambda>a. load_le (task_stack t) (unat (a - 0x230000))\<rparr>)
       (deliver_interrupt (esp0 (tss_mem (segments k))) 0x101300
         (demo_cpu, \<lambda>a. load_le (task_stack t) (unat (a - 0x230000)))) (scheduler k) =
       Ret ((thread_entry 0x102000 0x230000, m'), tm', [Out 0x20 0x20])"
    by (auto simp: demo_env_def)
  with k(1) show ?thesis by blast
qed

end
