(* ===== verification/Lock_Discipline.thy ===== *)
theory Lock_Discipline
  imports Enos_Prelude
begin

text \<open>
  Spin locks and interrupts. The kernel has one processor: a thread that holds a lock can be
  interrupted, and a handler that then spins on the same lock waits for ever, because it runs with
  interrupts off and the thread cannot go on. The comments on \<^verbatim>\<open>without_interrupts\<close>
  (\<^verbatim>\<open>src/src/interrupts.rs\<close>) and on the public functions of \<^verbatim>\<open>src/src/task.rs\<close>
  state the rule that avoids this. Here each function is the trace of the locks it takes; the rule
  is a check of such traces, sound for every interleaving with the handlers.
\<close>

datatype lock =
    Scheduler_lock | Writer_lock | Serial_lock | Queue_lock | Pics_lock
  | Session_lock | Input_lock | History_lock | Keyboard_lock | Files_lock | Heap_lock

text \<open>\<^verbatim>\<open>pushfd; cli\<close> and the conditional \<^verbatim>\<open>sti\<close> are the two ends of
  \<^verbatim>\<open>without_interrupts\<close>.\<close>

datatype act = Lock lock | Unlock lock | PushfCli | PopfSti

definition locked :: "lock \<Rightarrow> act list \<Rightarrow> act list" where
  "locked l body = Lock l # body @ [Unlock l]"

definition uninterrupted :: "act list \<Rightarrow> act list" where
  "uninterrupted body = PushfCli # body @ [PopfSti]"

section \<open>Interleaving\<close>

text \<open>The contexts on the processor, the running one first; the flags \<^verbatim>\<open>pushfd\<close> saved in
  each, the interrupt flag and the locks held by anyone.\<close>

record ctx =
  code :: "act list"
  saved :: "bool list"

record lock_state =
  contexts :: "ctx list"
  iflag :: bool
  held :: "lock set"

fun exec_act :: "act \<Rightarrow> bool list \<Rightarrow> bool \<Rightarrow> lock set \<Rightarrow> (bool list \<times> bool \<times> lock set) option" where
  "exec_act (Lock l) sv i h = (if l \<in> h then None else Some (sv, i, insert l h))"
| "exec_act (Unlock l) sv i h = Some (sv, i, h - {l})"
| "exec_act PushfCli sv i h = Some (i # sv, False, h)"
| "exec_act PopfSti sv i h =
     (case sv of [] \<Rightarrow> None | b # sv' \<Rightarrow> Some (sv', if b then True else i, h))"

text \<open>One step of the running context; a handler that has ended returns to what it interrupted,
  which had interrupts on. \<open>None\<close> is a lock that is not free.\<close>

fun exec_ctx :: "ctx list \<Rightarrow> bool \<Rightarrow> lock set \<Rightarrow> lock_state option" where
  "exec_ctx [] i h = None"
| "exec_ctx (c # cs) i h =
     (case code c of
        [] \<Rightarrow> if cs = [] then None else Some \<lparr>contexts = cs, iflag = True, held = h\<rparr>
      | a # as \<Rightarrow>
          map_option (\<lambda>(sv, i', h'). \<lparr>contexts = \<lparr>code = as, saved = sv\<rparr> # cs, iflag = i', held = h'\<rparr>)
            (exec_act a (saved c) i h))"

definition exec :: "lock_state \<Rightarrow> lock_state option" where
  "exec s = exec_ctx (contexts s) (iflag s) (held s)"

definition deliver_irq :: "act list \<Rightarrow> lock_state \<Rightarrow> lock_state" where
  "deliver_irq h s = s\<lparr>contexts := \<lparr>code = h, saved = []\<rparr> # contexts s, iflag := False\<rparr>"

inductive lock_step :: "act list set \<Rightarrow> lock_state \<Rightarrow> lock_state \<Rightarrow> bool" for handlers where
  run: "exec s = Some s' \<Longrightarrow> lock_step handlers s s'"
| irq: "iflag s \<Longrightarrow> h \<in> handlers \<Longrightarrow> lock_step handlers s (deliver_irq h s)"

definition thread_start :: "act list \<Rightarrow> lock_state" where
  "thread_start p = \<lparr>contexts = [\<lparr>code = p, saved = []\<rparr>], iflag = True, held = {}\<rparr>"

inductive lock_reachable :: "act list set \<Rightarrow> act list \<Rightarrow> lock_state \<Rightarrow> bool" for handlers p where
  start: "lock_reachable handlers p (thread_start p)"
| step: "lock_reachable handlers p s \<Longrightarrow> lock_step handlers s s' \<Longrightarrow> lock_reachable handlers p s'"

definition finished :: "lock_state \<Rightarrow> bool" where
  "finished s \<longleftrightarrow> (\<exists>c. contexts s = [c] \<and> code c = [])"

definition deadlocked :: "act list set \<Rightarrow> lock_state \<Rightarrow> bool" where
  "deadlocked handlers s \<longleftrightarrow> \<not> finished s \<and> (\<forall>s'. \<not> lock_step handlers s s')"

section \<open>The rule\<close>

text \<open>A trace follows the rule for the locks \<open>L\<close> of the handlers: it takes no lock twice, takes
  a lock of \<open>L\<close> only with interrupts off and turns them on only when it holds none of \<open>L\<close>.\<close>

fun disciplined :: "lock set \<Rightarrow> bool \<Rightarrow> bool list \<Rightarrow> lock set \<Rightarrow> act list \<Rightarrow> bool" where
  "disciplined L i sv h [] \<longleftrightarrow> h = {} \<and> sv = []"
| "disciplined L i sv h (Lock l # p) \<longleftrightarrow>
     l \<notin> h \<and> (l \<in> L \<longrightarrow> \<not> i) \<and> disciplined L i sv (insert l h) p"
| "disciplined L i sv h (Unlock l # p) \<longleftrightarrow> l \<in> h \<and> disciplined L i sv (h - {l}) p"
| "disciplined L i sv h (PushfCli # p) \<longleftrightarrow> disciplined L False (i # sv) h p"
| "disciplined L i sv h (PopfSti # p) \<longleftrightarrow>
     (case sv of
        [] \<Rightarrow> False
      | b # sv' \<Rightarrow> (b \<longrightarrow> h \<inter> L = {}) \<and> disciplined L (if b then True else i) sv' h p)"

abbreviation thread_ok :: "lock set \<Rightarrow> act list \<Rightarrow> bool" where
  "thread_ok L p \<equiv> disciplined L True [] {} p"

fun act_locks :: "act list \<Rightarrow> lock set" where
  "act_locks [] = {}"
| "act_locks (Lock l # p) = insert l (act_locks p)"
| "act_locks (Unlock l # p) = insert l (act_locks p)"
| "act_locks (_ # p) = act_locks p"

lemma disciplined_append:
  "disciplined L i sv h p \<Longrightarrow> (sv = [] \<longrightarrow> i) \<Longrightarrow> (sv \<noteq> [] \<longrightarrow> last sv) \<Longrightarrow> thread_ok L q \<Longrightarrow>
     disciplined L i sv h (p @ q)"
  by (induction L i sv h p rule: disciplined.induct) (auto split: list.splits if_splits)

lemma disciplined_concat: "\<forall>p \<in> set ps. thread_ok L p \<Longrightarrow> thread_ok L (concat ps)"
  by (induction ps) (auto intro: disciplined_append)

text \<open>A block that leaves the flags and the locks as it found them.\<close>

definition neutral :: "lock set \<Rightarrow> bool \<Rightarrow> bool list \<Rightarrow> lock set \<Rightarrow> act list \<Rightarrow> bool" where
  "neutral L i sv h q \<longleftrightarrow> (\<forall>p. disciplined L i sv h p \<longrightarrow> disciplined L i sv h (q @ p))"

named_theorems neutral_intros \<open>traces that leave flags and locks as they found them\<close>

lemma neutral_Nil [neutral_intros]: "neutral L i sv h []"
  by (simp add: neutral_def)

lemma neutral_append [neutral_intros]:
  "neutral L i sv h p \<Longrightarrow> neutral L i sv h q \<Longrightarrow> neutral L i sv h (p @ q)"
  by (simp add: neutral_def)

lemma neutral_replicate [neutral_intros]: "neutral L i sv h p \<Longrightarrow> neutral L i sv h (concat (replicate n p))"
  by (induction n) (auto simp: neutral_def)

lemma neutral_locked [neutral_intros]:
  assumes "l \<notin> h" "l \<in> L \<Longrightarrow> \<not> i" "neutral L i sv (insert l h) q"
  shows "neutral L i sv h (locked l q)"
proof -
  have "insert l h - {l} = h" using assms(1) by simp
  with assms show ?thesis by (simp add: neutral_def locked_def)
qed

lemma neutral_uninterrupted [neutral_intros]:
  "(i \<Longrightarrow> h \<inter> L = {}) \<Longrightarrow> neutral L False (i # sv) h q \<Longrightarrow> neutral L i sv h (uninterrupted q)"
  by (cases i) (simp_all add: neutral_def uninterrupted_def)

lemma neutral_thread_ok: "neutral L True [] {} q \<Longrightarrow> thread_ok L q"
  unfolding neutral_def by (metis append_Nil2 disciplined.simps(1))

locale lock_discipline =
  fixes L :: "lock set" and handlers :: "act list set"
  assumes handler_ok: "p \<in> handlers \<Longrightarrow> disciplined L False [] {} p"
    and handler_locks: "p \<in> handlers \<Longrightarrow> act_locks p \<subseteq> L"
begin

text \<open>Either the thread runs, or one handler runs above it: the thread was interrupted with
  interrupts on and so holds none of \<open>L\<close>, the handler holds nothing else.\<close>

definition thread_runs :: "lock_state \<Rightarrow> bool" where
  "thread_runs s \<longleftrightarrow>
     (\<exists>c. contexts s = [c] \<and> disciplined L (iflag s) (saved c) (held s) (code c) \<and>
        (iflag s \<longrightarrow> held s \<inter> L = {}))"

definition handler_runs :: "lock_state \<Rightarrow> bool" where
  "handler_runs s \<longleftrightarrow>
     (\<exists>c t hc ht. contexts s = [c, t] \<and> \<not> iflag s \<and> held s = hc \<union> ht \<and> hc \<subseteq> L \<and> ht \<inter> L = {} \<and>
        (\<forall>b \<in> set (saved c). \<not> b) \<and> act_locks (code c) \<subseteq> L \<and>
        disciplined L False (saved c) hc (code c) \<and> disciplined L True (saved t) ht (code t))"

lemma handler_runsI:
  assumes "hc \<subseteq> L" "ht \<inter> L = {}" "\<forall>b \<in> set sv. \<not> b" "act_locks p \<subseteq> L" "disciplined L False sv hc p"
    and "disciplined L True (saved t) ht (code t)" "h = hc \<union> ht"
  shows "handler_runs \<lparr>contexts = [\<lparr>code = p, saved = sv\<rparr>, t], iflag = False, held = h\<rparr>"
  unfolding handler_runs_def using assms
  by (intro exI [of _ "\<lparr>code = p, saved = sv\<rparr>"] exI [of _ t] exI [of _ hc] exI [of _ ht]) simp

lemma thread_runsI:
  "disciplined L i sv h p \<Longrightarrow> (i \<Longrightarrow> h \<inter> L = {}) \<Longrightarrow>
     thread_runs \<lparr>contexts = [\<lparr>code = p, saved = sv\<rparr>], iflag = i, held = h\<rparr>"
  by (simp add: thread_runs_def)

lemma thread_exec:
  assumes "thread_runs s" "\<not> finished s"
  shows "\<exists>s'. exec s = Some s' \<and> thread_runs s'"
proof -
  obtain c where c: "contexts s = [c]" "disciplined L (iflag s) (saved c) (held s) (code c)"
    "iflag s \<longrightarrow> held s \<inter> L = {}" using assms(1) by (auto simp: thread_runs_def)
  obtain a as where code: "code c = a # as" using assms(2) c(1) by (cases "code c") (auto simp: finished_def)
  show ?thesis
  proof (cases a)
    case (Lock l)
    then show ?thesis using c by (auto simp: exec_def code intro!: thread_runsI)
  next
    case (Unlock l)
    then show ?thesis using c by (auto simp: exec_def code intro!: thread_runsI)
  next
    case PushfCli
    then show ?thesis using c by (auto simp: exec_def code intro!: thread_runsI)
  next
    case PopfSti
    then show ?thesis using c by (cases "saved c") (auto simp: exec_def code intro!: thread_runsI)
  qed
qed

lemma handler_act:
  assumes "contexts s = [c, t]" "code c = a # as" "\<not> iflag s" "held s = hc \<union> ht" "hc \<subseteq> L" "ht \<inter> L = {}"
    and "\<forall>b \<in> set (saved c). \<not> b" "act_locks (code c) \<subseteq> L"
    and "disciplined L False (saved c) hc (code c)" "disciplined L True (saved t) ht (code t)"
  shows "\<exists>s'. exec s = Some s' \<and> handler_runs s'"
proof (cases a)
  case (Lock l)
  then have "exec s = Some \<lparr>contexts = [\<lparr>code = as, saved = saved c\<rparr>, t], iflag = False,
      held = insert l hc \<union> ht\<rparr>"
    using assms(1-9) by (auto simp: exec_def)
  moreover have "handler_runs \<lparr>contexts = [\<lparr>code = as, saved = saved c\<rparr>, t], iflag = False,
      held = insert l hc \<union> ht\<rparr>"
    using assms(2,5-10) Lock by (intro handler_runsI [of "insert l hc" ht]) simp_all
  ultimately show ?thesis by blast
next
  case (Unlock l)
  then have "l \<notin> ht" using assms(2,6,8) by auto
  then have "exec s = Some \<lparr>contexts = [\<lparr>code = as, saved = saved c\<rparr>, t], iflag = False,
      held = (hc - {l}) \<union> ht\<rparr>"
    using assms(1-4) Unlock by (auto simp: exec_def)
  moreover have "handler_runs \<lparr>contexts = [\<lparr>code = as, saved = saved c\<rparr>, t], iflag = False,
      held = (hc - {l}) \<union> ht\<rparr>"
    using assms(2,5-10) Unlock by (intro handler_runsI [of "hc - {l}" ht]) auto
  ultimately show ?thesis by blast
next
  case PushfCli
  have "handler_runs \<lparr>contexts = [\<lparr>code = as, saved = False # saved c\<rparr>, t], iflag = False, held = held s\<rparr>"
    using assms(2,4-10) PushfCli by (intro handler_runsI [of hc ht]) simp_all
  then show ?thesis using assms(1-3) PushfCli by (simp add: exec_def)
next
  case PopfSti
  then obtain sv where sv: "saved c = False # sv" using assms(2,7,9) by (cases "saved c") auto
  have "handler_runs \<lparr>contexts = [\<lparr>code = as, saved = sv\<rparr>, t], iflag = False, held = held s\<rparr>"
    using assms(2,4-10) PopfSti sv by (intro handler_runsI [of hc ht]) simp_all
  then show ?thesis using assms(1-3) PopfSti sv by (simp add: exec_def)
qed

lemma handler_exec:
  assumes "handler_runs s"
  shows "\<exists>s'. exec s = Some s' \<and> (thread_runs s' \<or> handler_runs s')"
proof -
  obtain c t hc ht where s: "contexts s = [c, t]" "\<not> iflag s" "held s = hc \<union> ht" "hc \<subseteq> L" "ht \<inter> L = {}"
    "\<forall>b \<in> set (saved c). \<not> b" "act_locks (code c) \<subseteq> L"
    "disciplined L False (saved c) hc (code c)" "disciplined L True (saved t) ht (code t)"
    using assms by (auto simp: handler_runs_def)
  show ?thesis
  proof (cases "code c")
    case Nil
    then have "hc = {}" using s(8) by simp
    then have "thread_runs \<lparr>contexts = [t], iflag = True, held = held s\<rparr>"
      using s(3,5,9) by (simp add: thread_runs_def)
    then show ?thesis using Nil s(1) by (simp add: exec_def)
  next
    case (Cons a as)
    from handler_act [OF s(1) Cons s(2-9)] show ?thesis by blast
  qed
qed

lemma irq_starts_handler:
  "thread_runs s \<Longrightarrow> iflag s \<Longrightarrow> p \<in> handlers \<Longrightarrow> handler_runs (deliver_irq p s)"
proof -
  assume s: "thread_runs s" "iflag s" "p \<in> handlers"
  then obtain t where t: "contexts s = [t]" "disciplined L True (saved t) (held s) (code t)" "held s \<inter> L = {}"
    by (auto simp: thread_runs_def)
  have "deliver_irq p s = \<lparr>contexts = [\<lparr>code = p, saved = []\<rparr>, t], iflag = False, held = held s\<rparr>"
    by (simp add: deliver_irq_def t(1))
  moreover have "handler_runs \<lparr>contexts = [\<lparr>code = p, saved = []\<rparr>, t], iflag = False, held = held s\<rparr>"
    using t handler_ok [OF s(3)] handler_locks [OF s(3)]
    by (intro handler_runsI [of "{}" "held s"]) simp_all
  ultimately show ?thesis by simp
qed

lemma reachable_runs:
  assumes "lock_reachable handlers p s" "thread_ok L p"
  shows "thread_runs s \<or> handler_runs s"
  using assms
proof (induction rule: lock_reachable.induct)
  case start
  then show ?case by (simp add: thread_runs_def thread_start_def)
next
  case (step s s')
  from step.hyps(2) show ?case
  proof (cases rule: lock_step.cases)
    case run
    then have "\<not> finished s" by (auto simp: finished_def exec_def)
    with run step show ?thesis using thread_exec [of s] handler_exec [of s] by auto
  next
    case (irq h)
    then have "thread_runs s" using step by (auto simp: handler_runs_def)
    with irq show ?thesis using irq_starts_handler by blast
  qed
qed

text \<open>A thread that follows the rule never deadlocks with the handlers, and whatever context is
  running can take its next step.\<close>

lemma no_deadlock:
  assumes "thread_ok L p" "lock_reachable handlers p s"
  shows "finished s \<or> (\<exists>s'. exec s = Some s')"
  using reachable_runs [OF assms(2,1)] thread_exec [of s] handler_exec [of s] by blast

end

inductive_simps lock_step_simps: "lock_step handlers s s'"

section \<open>The handlers\<close>

text \<open>Everything that can run while the background thread is interrupted: the two hardware
  interrupts, and system calls, exceptions and page faults of the user task the timer may switch
  to. All enter through interrupt gates, with interrupts off. The very first interrupt also
  allocates the entry of the user task (\<^verbatim>\<open>ensure_main_task_tracked\<close>); it arrives before the
  background thread has run, so no handler takes the lock of the heap here.\<close>

definition vga_print_locks :: "act list" where
  "vga_print_locks = uninterrupted (locked Writer_lock [])"

definition serial_print_locks :: "act list" where
  "serial_print_locks = uninterrupted (locked Serial_lock [])"

definition pic_ack_locks :: "act list" where
  "pic_ack_locks = locked Pics_lock []"

definition scheduler_tick_locks :: "act list" where
  "scheduler_tick_locks = pic_ack_locks @ locked Scheduler_lock []"

definition keyboard_irq_locks :: "act list" where
  "keyboard_irq_locks = locked Queue_lock [] @ pic_ack_locks"

definition sys_print_locks :: "act list" where
  "sys_print_locks = vga_print_locks @ serial_print_locks"

definition sleep_current_task_locks :: "act list" where
  "sleep_current_task_locks = locked Scheduler_lock []"

definition terminate_from_fault_locks :: "act list" where
  "terminate_from_fault_locks = locked Scheduler_lock []"

definition kernel_handlers :: "act list set" where
  "kernel_handlers =
     {scheduler_tick_locks, keyboard_irq_locks, sys_print_locks, sleep_current_task_locks, [],
      serial_print_locks, serial_print_locks @ terminate_from_fault_locks}"

definition handler_lock_set :: "lock set" where
  "handler_lock_set = {Scheduler_lock, Writer_lock, Serial_lock, Queue_lock, Pics_lock}"

lemmas handler_traces = kernel_handlers_def scheduler_tick_locks_def keyboard_irq_locks_def sys_print_locks_def
  sleep_current_task_locks_def terminate_from_fault_locks_def pic_ack_locks_def vga_print_locks_def
  serial_print_locks_def locked_def uninterrupted_def handler_lock_set_def

interpretation kernel_locks: lock_discipline handler_lock_set kernel_handlers
  by unfold_locales (auto simp: handler_traces)

section \<open>The background thread\<close>

definition scheduler_stats_locks :: "act list" where
  "scheduler_stats_locks = uninterrupted (locked Scheduler_lock [])"

text \<open>\<open>n\<close> allocations, each under the lock of the heap.\<close>

definition heap_locks :: "nat \<Rightarrow> act list" where
  "heap_locks n = concat (replicate n (locked Heap_lock []))"

definition process_snapshot_locks :: "nat \<Rightarrow> act list" where
  "process_snapshot_locks n = uninterrupted (locked Scheduler_lock (heap_locks n))"

definition kill_task_locks :: "act list" where
  "kill_task_locks = uninterrupted (locked Scheduler_lock [])"

definition print_prompt_locks :: "act list" where
  "print_prompt_locks = locked Session_lock [] @ vga_print_locks"

definition require_root_locks :: "bool \<Rightarrow> act list" where
  "require_root_locks root = locked Session_lock [] @ (if root then [] else vga_print_locks)"

definition switch_user_locks :: "act list" where
  "switch_user_locks = locked Session_lock []"

text \<open>The line is erased on the screen while the lock of the input buffer is held.\<close>

definition replace_input_line_locks :: "nat \<Rightarrow> nat \<Rightarrow> act list" where
  "replace_input_line_locks shown allocs =
     locked Input_lock (concat (replicate shown vga_print_locks) @ heap_locks allocs) @ vga_print_locks"

definition history_up_locks :: "nat \<Rightarrow> nat \<Rightarrow> (nat \<times> nat) option \<Rightarrow> act list" where
  "history_up_locks cloned allocs entry =
     locked Input_lock (heap_locks cloned) @ locked History_lock (heap_locks allocs) @
     (case entry of None \<Rightarrow> [] | Some (n, k) \<Rightarrow> replace_input_line_locks n k)"

definition history_down_locks :: "nat \<Rightarrow> (nat \<times> nat) option \<Rightarrow> act list" where
  "history_down_locks allocs entry =
     locked History_lock (heap_locks allocs) @
     (case entry of None \<Rightarrow> [] | Some (n, k) \<Rightarrow> replace_input_line_locks n k)"

definition erase_char_locks :: "bool \<Rightarrow> act list" where
  "erase_char_locks popped =
     locked History_lock [] @ locked Input_lock [] @ (if popped then vga_print_locks else [])"

definition push_char_locks :: "bool \<Rightarrow> nat \<Rightarrow> act list" where
  "push_char_locks should_push allocs =
     locked Input_lock [] @
     (if should_push then locked History_lock [] @ locked Input_lock (heap_locks allocs) @ vga_print_locks
      else [])"

definition take_line_locks :: "nat \<Rightarrow> nat \<Rightarrow> act list" where
  "take_line_locks allocs kept =
     vga_print_locks @ locked Input_lock (heap_locks allocs) @ locked History_lock (heap_locks kept)"

definition decode_locks :: "act list" where
  "decode_locks = locked Keyboard_lock []"

definition files_locks :: "nat \<Rightarrow> act list" where
  "files_locks allocs = locked Files_lock (heap_locks allocs)"

text \<open>Two functions take a lock of the handlers with interrupts on.\<close>

definition poll_pop_locks :: "act list" where
  "poll_pop_locks = locked Queue_lock []"

definition clear_screen_locks :: "act list" where
  "clear_screen_locks = locked Writer_lock []"

definition guarded_ops :: "act list set" where
  "guarded_ops =
     {vga_print_locks, serial_print_locks, scheduler_stats_locks, kill_task_locks, print_prompt_locks,
      switch_user_locks, decode_locks} \<union>
     range process_snapshot_locks \<union> range heap_locks \<union> range require_root_locks \<union>
     range erase_char_locks \<union> range files_locks \<union>
     {history_up_locks n k e | n k e. True} \<union> {history_down_locks k e | k e. True} \<union>
     {push_char_locks b n | b n. True} \<union> {take_line_locks n k | n k. True}"

lemma heap_locks_neutral [neutral_intros]: "Heap_lock \<notin> h \<Longrightarrow> neutral handler_lock_set i sv h (heap_locks n)"
  unfolding heap_locks_def by (intro neutral_intros) (auto simp: handler_lock_set_def)

lemma prints_neutral [neutral_intros]:
  "h \<inter> handler_lock_set = {} \<Longrightarrow> neutral handler_lock_set i sv h vga_print_locks"
  "h \<inter> handler_lock_set = {} \<Longrightarrow> neutral handler_lock_set i sv h serial_print_locks"
  unfolding vga_print_locks_def serial_print_locks_def
  by (intro neutral_intros; auto simp: handler_lock_set_def)+

lemma replace_neutral [neutral_intros]: "neutral handler_lock_set True [] {} (replace_input_line_locks n k)"
  unfolding replace_input_line_locks_def by (intro neutral_intros) (auto simp: handler_lock_set_def)

lemmas thread_traces = scheduler_stats_locks_def process_snapshot_locks_def kill_task_locks_def print_prompt_locks_def
  require_root_locks_def switch_user_locks_def history_up_locks_def history_down_locks_def erase_char_locks_def
  push_char_locks_def take_line_locks_def decode_locks_def files_locks_def

lemma guarded_neutral: "p \<in> guarded_ops \<Longrightarrow> neutral handler_lock_set True [] {} p"
  unfolding guarded_ops_def
  by (auto simp: thread_traces handler_lock_set_def intro!: neutral_intros [unfolded handler_lock_set_def]
      split: option.splits)

lemma guarded_thread_ok: "set ops \<subseteq> guarded_ops \<Longrightarrow> thread_ok handler_lock_set (concat ops)"
  by (intro disciplined_concat) (auto intro: neutral_thread_ok guarded_neutral)

lemma spinning_deadlock:
  assumes "contexts s = c # cs" "code c \<noteq> []" "hd (code c) = Lock l" "l \<in> held s" "\<not> iflag s"
  shows "deadlocked handlers s"
  using assms by (cases "code c") (auto simp: deadlocked_def finished_def lock_step_simps exec_def)

section \<open>Properties\<close>

text \<open>C7: printing, the scheduler's public functions and the line editing and file functions of the
  shell never deadlock. Run by the background thread in any order, interrupted by any handlers at
  any points, the running context can always take its next step until the thread is done.\<close>

theorem guarded_operations_never_deadlock:
  assumes "set ops \<subseteq> guarded_ops" and "lock_reachable kernel_handlers (concat ops) s"
  shows "finished s \<or> (\<exists>s'. exec s = Some s')"
  using guarded_thread_ok [OF assms(1)] assms(2) by (rule kernel_locks.no_deadlock)

theorem guarded_operations_never_deadlock_witness:
  "\<exists>s'. exec (deliver_irq keyboard_irq_locks (thread_start (concat [kill_task_locks, vga_print_locks]))) = Some s'"
proof -
  have "set [kill_task_locks, vga_print_locks] \<subseteq> guarded_ops" by (simp add: guarded_ops_def)
  moreover have "lock_reachable kernel_handlers (concat [kill_task_locks, vga_print_locks])
      (deliver_irq keyboard_irq_locks (thread_start (concat [kill_task_locks, vga_print_locks])))"
    by (rule lock_reachable.step [OF lock_reachable.start], rule lock_step.irq)
      (simp_all add: thread_start_def kernel_handlers_def)
  ultimately show ?thesis
    using guarded_operations_never_deadlock by (fastforce simp: finished_def deliver_irq_def thread_start_def)
qed

text \<open>C36: two functions break the rule and can hang the kernel. A key pressed while
  \<^verbatim>\<open>poll_input\<close> holds the scancode queue makes the keyboard interrupt spin for ever, and so
  does a print call of the user task while \<^verbatim>\<open>clear_screen\<close>, preempted, holds the
  screen.\<close>

theorem unguarded_locks_deadlock:
  "(\<exists>s. lock_reachable kernel_handlers poll_pop_locks s \<and> deadlocked kernel_handlers s) \<and>
   (\<exists>s. lock_reachable kernel_handlers clear_screen_locks s \<and> deadlocked kernel_handlers s)"
proof (intro conjI exI)
  let ?s = "\<lambda>l. \<lparr>contexts = [\<lparr>code = [Unlock l], saved = []\<rparr>], iflag = True, held = {l}\<rparr>"
  have start: "lock_reachable kernel_handlers (locked l []) (?s l)" for l
    by (rule lock_reachable.step [OF lock_reachable.start], rule lock_step.run)
      (simp add: exec_def thread_start_def locked_def)
  show "lock_reachable kernel_handlers poll_pop_locks (deliver_irq keyboard_irq_locks (?s Queue_lock))"
    unfolding poll_pop_locks_def
    by (rule lock_reachable.step [OF start], rule lock_step.irq) (simp_all add: kernel_handlers_def)
  show "deadlocked kernel_handlers (deliver_irq keyboard_irq_locks (?s Queue_lock))"
    by (rule spinning_deadlock [of _ "\<lparr>code = keyboard_irq_locks, saved = []\<rparr>" _ Queue_lock])
      (simp_all add: deliver_irq_def keyboard_irq_locks_def locked_def)
  let ?t = "\<lparr>contexts = [\<lparr>code = tl sys_print_locks, saved = [False]\<rparr>, \<lparr>code = [Unlock Writer_lock], saved = []\<rparr>],
    iflag = False, held = {Writer_lock}\<rparr>"
  have "lock_reachable kernel_handlers clear_screen_locks (deliver_irq sys_print_locks (?s Writer_lock))"
    unfolding clear_screen_locks_def
    by (rule lock_reachable.step [OF start], rule lock_step.irq) (simp_all add: kernel_handlers_def)
  then show "lock_reachable kernel_handlers clear_screen_locks ?t"
    by (rule lock_reachable.step, intro lock_step.run)
      (simp add: exec_def deliver_irq_def sys_print_locks_def vga_print_locks_def uninterrupted_def)
  show "deadlocked kernel_handlers ?t"
    by (rule spinning_deadlock [of _ "\<lparr>code = tl sys_print_locks, saved = [False]\<rparr>" _ Writer_lock])
      (simp_all add: sys_print_locks_def vga_print_locks_def uninterrupted_def locked_def)
qed

end
