(* ===== verification/Spec2Isabelle.thy ===== *)
theory Spec2Isabelle
  imports Vga_Buffer Boot Lock_Discipline
begin

text \<open>
  Verification of the ENOS kernel, a 32-bit x86 kernel in Rust (\<^verbatim>\<open>src/src/*.rs\<close>): it
  boots through a multiboot loader, sets up segments, pages, gates and devices, starts a background
  thread that runs a shell, and enters a small program in ring 3.

  \<^bold>\<open>Conventions\<close> (\<open>Enos_Prelude\<close>, \<open>Text_Fmt\<close>). Integers keep their width as words;
  \<^verbatim>\<open>usize\<close> has 32 bits on the target. A plain \<^verbatim>\<open>+\<close>, \<^verbatim>\<open>-\<close> or
  \<^verbatim>\<open>*\<close> that overflows, an index out of range and an explicit panic are values of the type
  \<open>'a run\<close>; wrapping, checked and saturating operations are written as such. Statics behind a
  \<^verbatim>\<open>spin::Mutex\<close> are explicit states. Text is a list of characters; what a function prints is a
  list of \<open>console_op\<close>, what it writes to ports a list of \<open>port_op\<close>. Values the machine or the
  linker supplies (addresses, port reads, registers, memory found at boot) are arguments.

  \<^bold>\<open>Components\<close>.
  \<^item> \<open>Scheduler\<close> (\<^verbatim>\<open>task.rs\<close>): the task manager, creation of tasks, sleeping, killing, the
    round-robin tick. \<open>sched_inv\<close> is its invariant, \<open>sched_step\<close> the steps of its life. Lemmas:
    no tick panics, ready tasks run within one round, kernel tasks survive, the exact effect of a
    tick, a sleep, a kill and a user fault.
  \<^item> \<open>Interrupts\<close>, \<open>Idt\<close>, \<open>Gdt\<close> (\<^verbatim>\<open>interrupts.rs\<close>, \<^verbatim>\<open>idt.rs\<close>,
    \<^verbatim>\<open>gdt.rs\<close>): handlers and assembly wrappers on a model of registers, stack words and
    interrupt delivery; the tables, read back the way the processor reads them.
  \<^item> \<open>Syscall\<close>, \<open>Paging\<close> (\<^verbatim>\<open>syscall.rs\<close>, \<^verbatim>\<open>paging.rs\<close>): the dispatcher with its
    error codes; the page tables under the processor's two-level walk. User memory is all a system
    call can read.
  \<^item> \<open>Phys_Memory\<close>, \<open>Heap_Allocator\<close> (\<^verbatim>\<open>memory.rs\<close>, \<^verbatim>\<open>allocator.rs\<close>): both bump
    allocators interpret the locale \<open>block_source\<close> of \<open>Block_Source\<close>: blocks never overlap. The
    theorems on frames hold for maps (\<open>map_ok\<close>) whose available regions are disjoint and avoid the last
    page below four gigabytes (\<open>ram_ok\<close>); regions above four gigabytes are allowed and skipped. What
    happens in that page is \<open>last_page_yields_frame_zero\<close>. \<open>serve\<close> runs a sequence of requests on the
    heap; the first that fails ends in \<open>alloc_error_handler\<close>, a panic.
  \<^item> \<open>Devices\<close>, \<open>Vga_Buffer\<close> (\<^verbatim>\<open>pic.rs\<close>, \<^verbatim>\<open>pit.rs\<close>, \<^verbatim>\<open>serial.rs\<close>,
    \<^verbatim>\<open>vga_buffer.rs\<close>): port writes run against the documented registers; the screen is a window
    on an unbounded terminal.
  \<^item> \<open>Scancode_Queue\<close>, \<open>Keyboard\<close>, \<open>History\<close>, \<open>Calc_Parser\<close>, \<open>Ramfs\<close>,
    \<open>Shell_Commands\<close>, \<open>Shell\<close> (\<^verbatim>\<open>shell.rs\<close>, \<^verbatim>\<open>fs.rs\<close>): the ring buffer refines a
    bounded queue (locale \<open>bounded_fifo\<close>), the file table a map, the calculator its grammar; every
    command with its output; \<open>shell_inv\<close> is kept by everything that is typed. \<open>poll_input\<close> is the
    polling alone, \<open>poll_input_heap\<close> the polling on the heap, where the only panic is that of an
    exhausted heap; without requests the two agree (\<open>poll_loop_without_requests\<close>). The array accesses
    of the ring buffer are those of lists: under its invariant \<open>sq_wf\<close> every index is in range.
  \<^item> \<open>User_Program\<close>, \<open>Boot\<close> (\<^verbatim>\<open>main.rs\<close>): the assembled ring 3 program, decoded and
    run; the entry code and \<^verbatim>\<open>kernel_main\<close> in its order of steps. \<open>handover\<close> is the machine
    it leaves: segment, table and control registers, devices, gates; \<open>live_translate\<close> is the translation
    of addresses under those control registers.
  \<^item> \<open>Lock_Discipline\<close>: the locks each function takes, interleaved with the interrupt handlers;
    the locale \<open>lock_discipline\<close> proves the rule the comments state sound.
  \<^item> This theory: the running kernel, as events on the state the boot leaves, each with its requests
    to the heap.

  \<^bold>\<open>Bounds and fuel\<close>. Loops are structural recursion or functions with a termination proof. The
  wait for the serial transmitter may not end and is a partial function; \<open>serial_delivers\<close> shows that
  it returns when the device becomes ready. The calculator's mutual recursion ends because every round
  consumes input. \<open>run_to_syscall\<close> has fuel five, the longest way of the user
  program to a call.

  \<^bold>\<open>Findings\<close>. Some theorems state what the code does against its intention: \<open>yield_is_no_op\<close>,
  \<open>user_reaches_io_ports\<close>, \<open>last_page_yields_frame_zero\<close>, \<open>high_memory_not_counted\<close>,
  \<open>wrapped_text_cannot_be_erased\<close>, \<open>format_bytes_digits\<close> and \<open>unguarded_locks_deadlock\<close>.

  \<^bold>\<open>The heap\<close>. Which requests a string or a vector makes, and when it grows, is decided by the
  library that implements them, so the requests of an event are arguments: lists of layouts, arbitrary
  but for the promise of \<^verbatim>\<open>Layout\<close> (\<open>layout_ok\<close>). \<open>demand\<close> is the most a list can take, with the
  gaps for alignment; \<open>serve_runs_out\<close> and \<open>full_heap_panics\<close> show that the heap does run out. At
  boot the addresses of the blocks are fields of \<open>boot_env\<close>: the few allocations of the boot, some tens
  of kilobytes of a megabyte, are taken to succeed, and the offset they leave is arbitrary.

  \<^bold>\<open>Not modelled\<close>. The linker script, the build files and the loader configuration; the instruction
  level of Rust code (only the assembly wrappers run on the processor model, a call into Rust is its
  function and an arbitrary clobber of the caller-saved registers and of the stack below), and so the
  depth of the stacks: the calculator recurses once for each open parenthesis on a stack of 8 KiB;
  volatile access, which is plain access here; one memory shared by all components: the user image, the
  stack words and the memory map are separate functions. A round of the
  background thread is one step of the running kernel; interrupts inside it are treated by
  \<open>Lock_Discipline\<close> only. The exception handlers that spin (\<^verbatim>\<open>gpf_handler\<close> and the default
  ones) end the run of the kernel and are no event of it.
\<close>

section \<open>The running kernel\<close>

text \<open>
  What happens after the boot: timer and keyboard interrupts, system calls and page faults of user
  code, and rounds of the background thread. The state is that of the shell, which holds the
  scheduler, the scancode queue and the files, with the offset of the heap and the heartbeat counter
  of the thread. An event carries the requests it makes to the heap: the scheduler allocates a task
  and may grow its vector, the shell its strings and vectors; the keyboard interrupt allocates
  nothing. \<open>b\<close> is the address of the heap.
\<close>

datatype event =
    Timer "layout list" u32
  | Key u8
  | Syscall "layout list" memory u32 u32 u32 u32 u32 u32 u32
  | User_fault "layout list" u32 u32 u32
  | Background "nat \<Rightarrow> heap_use"

type_synonym system = "(shell_state \<times> usize) \<times> u32"

abbreviation sys_shell :: "system \<Rightarrow> shell_state" where "sys_shell s \<equiv> fst (fst s)"
abbreviation sys_offset :: "system \<Rightarrow> usize" where "sys_offset s \<equiv> snd (fst s)"

fun kernel_event :: "usize \<Rightarrow> event \<Rightarrow> system \<Rightarrow> (console_op list \<times> system) run" where
  "kernel_event b (Timer ls esp) ((st, off), n) =
     rbind (serve b ls off) (\<lambda>off.
     rbind (scheduler_tick esp (task_mgr st)) (\<lambda>(sp, tm, ops). Ret ([], (st\<lparr>task_mgr := tm\<rparr>, off), n)))"
| "kernel_event b (Key sc) ((st, off), n) =
     rbind (keyboard_interrupt sc (scancodes st)) (\<lambda>(q, ops). Ret ([], (st\<lparr>scancodes := q\<rparr>, off), n))"
| "kernel_event b (Syscall ls m eax ebx ecx edx esi edi esp) ((st, off), n) =
     rbind (serve b ls off) (\<lambda>off.
     let (code, tm, out) = syscall_dispatcher m eax ebx ecx edx esi edi esp (task_mgr st)
     in Ret (out, (st\<lparr>task_mgr := tm\<rparr>, off), n))"
| "kernel_event b (User_fault ls esp addr err) ((st, off), n) =
     rbind (serve b ls off) (\<lambda>off.
     rbind (page_fault_dispatcher esp addr err (task_mgr st)) (\<lambda>(sp, tm, out).
       Ret (out, (st\<lparr>task_mgr := tm\<rparr>, off), n)))"
| "kernel_event b (Background use) s = background_step b use s"

text \<open>System calls and page faults with the user bit come from user code, rounds of the thread
  from a kernel task; interrupts come at any time.\<close>

fun can_happen :: "event \<Rightarrow> task_manager \<Rightarrow> bool" where
  "can_happen (Syscall ls m eax ebx ecx edx esi edi esp) tm \<longleftrightarrow> in_user_mode tm"
| "can_happen (User_fault ls esp addr err) tm \<longleftrightarrow> in_user_mode tm \<and> err AND 4 \<noteq> 0"
| "can_happen (Background use) tm \<longleftrightarrow> \<not> in_user_mode tm"
| "can_happen _ tm \<longleftrightarrow> True"

text \<open>The requests of an event are layouts, and the most they can take.\<close>

fun requests_ok :: "event \<Rightarrow> bool" where
  "requests_ok (Timer ls esp) \<longleftrightarrow> list_all layout_ok ls"
| "requests_ok (Key sc) \<longleftrightarrow> True"
| "requests_ok (Syscall ls m eax ebx ecx edx esi edi esp) \<longleftrightarrow> list_all layout_ok ls"
| "requests_ok (User_fault ls esp addr err) \<longleftrightarrow> list_all layout_ok ls"
| "requests_ok (Background use) \<longleftrightarrow> (\<forall>i. use_ok (use i))"

fun event_demand :: "event \<Rightarrow> nat" where
  "event_demand (Timer ls esp) = demand ls"
| "event_demand (Key sc) = 0"
| "event_demand (Syscall ls m eax ebx ecx edx esi edi esp) = demand ls"
| "event_demand (User_fault ls esp addr err) = demand ls"
| "event_demand (Background use) = use_demand use SCANCODE_QUEUE_CAPACITY"

inductive kernel_reachable :: "usize \<Rightarrow> system \<Rightarrow> system \<Rightarrow> bool" for b s0 where
  start: "kernel_reachable b s0 s0"
| event: "kernel_reachable b s0 s \<Longrightarrow> can_happen e (task_mgr (sys_shell s)) \<Longrightarrow> requests_ok e \<Longrightarrow>
    kernel_event b e s = Ret (out, s') \<Longrightarrow> kernel_reachable b s0 s'"

text \<open>The state the boot leaves, with the offset its allocations moved the heap to.\<close>

definition system_start :: "kernel \<Rightarrow> usize \<Rightarrow> system" where
  "system_start k offset = ((shell_statics (scheduler k) (heap_stats_of offset), offset), 0)"

definition system_inv :: "system \<Rightarrow> bool" where
  "system_inv s \<longleftrightarrow> shell_inv (sys_shell s) \<and> heap_wf (sys_offset s)"

text \<open>The outcomes an event may have.\<close>

definition event_outcome :: "nat \<Rightarrow> system \<Rightarrow> (console_op list \<times> system) run \<Rightarrow> bool" where
  "event_outcome most s r \<longleftrightarrow>
     (case r of
        Inl p \<Rightarrow> (\<exists>l. p = alloc_error_handler l) \<and> 2 ^ 20 < unat (sys_offset s) + most
      | Inr (out, s') \<Rightarrow> system_inv s' \<and> unat (sys_offset s) \<le> unat (sys_offset s') \<and>
          unat (sys_offset s') \<le> unat (sys_offset s) + most)"

lemma dispatcher_inv:
  "sched_inv tm \<Longrightarrow> sched_inv (fst (snd (syscall_dispatcher m n a b c d e esp tm)))"
  using syscall_preserves_scheduler by blast

lemma user_fault_handled:
  assumes "sched_inv tm" "in_user_mode tm" "err AND 4 \<noteq> 0"
  shows "\<exists>sp tm' out. page_fault_dispatcher esp addr err tm = Ret (sp, tm', out) \<and> sched_inv tm'"
proof -
  obtain sp tm' where t: "terminate_current_user_task_from_fault esp tm = Ret (sp, tm')"
    using fault_ok [OF assms(1,2)] by metis
  with fault_inv [OF assms(1) t] assms(3) show ?thesis by (simp add: page_fault_dispatcher_def)
qed

lemma tick_handled:
  assumes "sched_inv tm"
  shows "\<exists>sp tm' ops. scheduler_tick esp tm = Ret (sp, tm', ops) \<and> sched_inv tm'"
proof -
  obtain sp tm' where t: "schedule_next esp tm = Ret (sp, tm')" using schedule_next_ok [OF assms] by metis
  with schedule_next_inv(1) [OF assms t] show ?thesis by (simp add: scheduler_tick_def ack_timer)
qed

lemma key_handled:
  "sq_wf q \<Longrightarrow> \<exists>q' ops. keyboard_interrupt sc q = Ret (q', ops) \<and> sq_wf q'"
  by (simp add: keyboard_interrupt_def enqueue_scancode_from_irq_def ack_keyboard scq.wf_push)

text \<open>An event that is served first and then changes the shell's state without a panic.\<close>

lemma served_outcome:
  assumes "base_ok b" "list_all layout_ok ls" "heap_wf off"
    and "\<And>off'. \<exists>out st'. f off' = Ret (out, (st', off'), n) \<and> shell_inv st'"
  shows "event_outcome (demand ls) ((st, off), n) (rbind (serve b ls off) f)"
proof (cases "serve b ls off")
  case (Inl p)
  then show ?thesis using serve_cases [OF assms(1-3)] by (auto simp: event_outcome_def)
next
  case (Inr off')
  obtain out st' where "f off' = Ret (out, (st', off'), n)" "shell_inv st'" using assms(4) by blast
  with Inr serve_cases [OF assms(1-3)] show ?thesis by (simp add: event_outcome_def system_inv_def)
qed

lemma event_handled:
  assumes "system_inv s" "base_ok b" "can_happen e (task_mgr (sys_shell s))" "requests_ok e"
  shows "event_outcome (event_demand e) s (kernel_event b e s)"
proof -
  obtain st off n where s: "s = ((st, off), n)" by (metis prod.exhaust)
  have inv: "shell_inv st" "heap_wf off" "sched_inv (task_mgr st)" "sq_wf (scancodes st)"
    using assms(1) by (simp_all add: s system_inv_def shell_inv_def)
  have tm: "shell_inv (st\<lparr>task_mgr := tm\<rparr>)" if "sched_inv tm" for tm
    using inv(1) that by (simp add: shell_inv_def)
  show ?thesis
  proof (cases e)
    case (Timer ls esp)
    then show ?thesis
      using tick_handled [OF inv(3), of esp] tm assms(4)
      by (auto simp: s intro!: served_outcome [OF assms(2) _ inv(2)])
  next
    case (Key sc)
    then show ?thesis using key_handled [OF inv(4), of sc] inv(1,2)
      by (auto simp: s shell_inv_def system_inv_def event_outcome_def)
  next
    case (Syscall ls m eax ebx ecx edx esi edi esp)
    then show ?thesis
      using tm [OF dispatcher_inv [OF inv(3)]] assms(4)
      by (auto simp: s split_beta intro!: served_outcome [OF assms(2) _ inv(2)])
  next
    case (User_fault ls esp addr err)
    then show ?thesis
      using user_fault_handled [OF inv(3), of err esp addr] assms(3,4) tm
      by (auto simp: s intro!: served_outcome [OF assms(2) _ inv(2)])
  next
    case (Background use)
    then show ?thesis
      using poll_loop_heap_outcome [OF assms(2) _ inv(1,2), of use SCANCODE_QUEUE_CAPACITY] assms(4)
      by (auto simp: s background_step_def poll_input_heap_def Let_def heap_outcome_def event_outcome_def
          system_inv_def split: sum.splits)
  qed
qed

lemma reachable_system_inv: "kernel_reachable b s0 s \<Longrightarrow> base_ok b \<Longrightarrow> system_inv s0 \<Longrightarrow> system_inv s"
proof (induction rule: kernel_reachable.induct)
  case (event s e out s')
  then show ?case using event_handled [of s b e] by (simp add: event_outcome_def)
qed simp

lemma start_inv: "sched_inv tm \<Longrightarrow> shell_inv (shell_statics tm heap)"
  by (simp add: shell_inv_def shell_statics_def scq.wf_empty) (simp add: history_new_def fs_wf_def)

section \<open>Properties\<close>

text \<open>C2: the running kernel panics only when its heap is exhausted. After a boot by a multiboot
  loader with a well-formed memory map, whatever sequence of timer ticks, keys, system calls, user
  page faults and rounds of the background thread has happened, with whatever requests to the heap,
  which never takes a block back, the next one either is handled, and the invariants of the shell, the
  file system, the scancode queue, the scheduler and the heap hold again; or it ends in the
  out-of-memory panic, and that only if its requests, with the gaps for alignment, may not fit what
  the heap has left.\<close>

theorem kernel_panics_only_out_of_memory:
  assumes "r_eax (fst s) = 0x2BADB002" and "boot_ok env (multiboot_at env (r_ebx (fst s)))"
    and "boot env sh kernel_stack_top return s = Ret k"
    and "base_ok b" and "heap_wf offset" and "kernel_reachable b (system_start k offset) sys"
    and "can_happen e (task_mgr (sys_shell sys))" and "requests_ok e"
  shows "case kernel_event b e sys of
      Inl p \<Rightarrow> (\<exists>l. p = alloc_error_handler l) \<and> 2 ^ 20 < unat (sys_offset sys) + event_demand e
    | Inr (out, sys') \<Rightarrow> shell_inv (sys_shell sys') \<and> heap_wf (sys_offset sys') \<and>
        unat (sys_offset sys) \<le> unat (sys_offset sys') \<and>
        unat (sys_offset sys') \<le> unat (sys_offset sys) + event_demand e"
proof -
  have "handover env k"
    using boot_hands_over [OF assms(1,2), of sh kernel_stack_top return] assms(3) by simp
  moreover have "unat (background_stack env) + 8192 < 2 ^ 32" using assms(2) by (simp add: boot_ok_def)
  ultimately have "sched_inv (scheduler k)" by (rule handover_scheduler) (rule sched_reachable_inv)
  then have "system_inv (system_start k offset)"
    using assms(5) by (simp add: system_inv_def system_start_def start_inv)
  from event_handled [OF reachable_system_inv [OF assms(6,4) this] assms(4,7,8)] show ?thesis
    by (auto simp: event_outcome_def system_inv_def split: sum.splits)
qed

text \<open>The first tick allocates the stack of the task that stands for the user program.\<close>

theorem kernel_panics_only_out_of_memory_witness:
  "\<exists>k. boot demo_env demo_shell 0x240000 0x100020 (loader_cpu, \<lambda>_. 0) = Ret k \<and>
     (\<exists>out sys'. kernel_event 0x110000 (Timer [\<lparr>lay_size = 8192, lay_align = 1\<rparr>] 0x221000) (system_start k 30000) =
        Ret (out, sys') \<and> unat (sys_offset sys') \<le> 38193)"
proof -
  obtain k where k: "boot demo_env demo_shell 0x240000 0x100020 (loader_cpu, \<lambda>_. 0) = Ret k"
    using boot_hands_over [OF loader_magic demo_env_ok] by blast
  let ?e = "Timer [\<lparr>lay_size = 8192, lay_align = 1\<rparr>] 0x221000"
  have "base_ok 0x110000" "heap_wf 30000" "can_happen ?e (task_mgr (sys_shell (system_start k 30000)))"
    by (simp_all add: base_ok_def heap_wf_def)
  moreover have "requests_ok ?e" by (auto simp: layout_ok_def intro: bexI [of _ 0])
  moreover have "unat (sys_offset (system_start k 30000)) = 30000" by (simp add: system_start_def)
  ultimately show ?thesis
    using kernel_panics_only_out_of_memory [OF loader_magic demo_env_ok k _ _ kernel_reachable.start,
        of "0x110000" "30000" ?e] k
    by (auto split: sum.splits)
qed

end
